theory Spec2Isabelle
  imports Main "HOL-Library.AList" "HOL-Library.Word"
begin

unbundle bit_operations_syntax

section \<open>Byte strings\<close>

text \<open>
  Python \<open>bytes\<close> values are modelled as \<open>string\<close> (a list of 8-bit characters).
  The helpers below are the \<open>bytes\<close> methods that the client and the index codec call.
\<close>

definition SP :: char where
  "SP = CHR '' ''"

definition LF :: char where
  "LF = CHR 0x0A"

definition NUL :: char where
  "NUL = CHR 0x00"

text \<open>The characters removed by \<open>bytes.strip()\<close> with no argument: space, TAB, LF, VT, FF, CR.\<close>

definition is_ws :: "char \<Rightarrow> bool" where
  "is_ws c = (c = SP \<or> c = CHR 0x09 \<or> c = LF \<or> c = CHR 0x0B \<or> c = CHR 0x0C \<or> c = CHR 0x0D)"

definition rstrip_by :: "(char \<Rightarrow> bool) \<Rightarrow> string \<Rightarrow> string" where
  "rstrip_by p xs = rev (dropWhile p (rev xs))"

text \<open>\<open>pkt.strip()\<close>\<close>

definition strip :: "string \<Rightarrow> string" where
  "strip xs = dropWhile is_ws (rstrip_by is_ws xs)"

text \<open>\<open>pkt.rstrip(b'\n')\<close>\<close>

definition rstrip_nl :: "string \<Rightarrow> string" where
  "rstrip_nl xs = rstrip_by (\<lambda>c. c = LF) xs"

text \<open>\<open>b' ' in s\<close>\<close>

definition has_sp :: "string \<Rightarrow> bool" where
  "has_sp s = (SP \<in> set s)"

text \<open>
  \<open>s.split(sep, 1)\<close> for an \<open>s\<close> that contains \<open>sep\<close>: the part before the first
  separator and the part after it. Every call in the source that unpacks two values is either
  guarded by a membership test or modelled with its \<open>ValueError\<close> written out.
\<close>

definition split1 :: "char \<Rightarrow> string \<Rightarrow> string \<times> string" where
  "split1 sep s = (takeWhile (\<lambda>c. c \<noteq> sep) s, drop 1 (dropWhile (\<lambda>c. c \<noteq> sep) s))"

text \<open>\<open>s.split(sep)\<close>: split at every separator; the result is never empty.\<close>

fun split_all :: "char \<Rightarrow> string \<Rightarrow> string list" where
  "split_all sep [] = [[]]"
| "split_all sep (c # cs) =
     (if c = sep then [] # split_all sep cs
      else (case split_all sep cs of
              [] \<Rightarrow> [[c]]
            | p # ps \<Rightarrow> (c # p) # ps))"

text \<open>\<open>sep.join(parts)\<close>\<close>

fun join :: "'a list \<Rightarrow> 'a list list \<Rightarrow> 'a list" where
  "join sep [] = []"
| "join sep [p] = p"
| "join sep (p # q # ps) = p @ sep @ join sep (q # ps)"

text \<open>\<open>s.startswith(p)\<close>\<close>

definition startswith :: "string \<Rightarrow> string \<Rightarrow> bool" where
  "startswith s p = (take (length p) s = p)"


section \<open>Python strings and UTF-8\<close>

text \<open>
  A Python \<open>str\<close> is a list of code points. A \<open>str\<close> literal of the source is ASCII,
  so its code points are its bytes (\<open>str_of\<close>).
\<close>

type_synonym py_str = "nat list"

definition str_of :: "string \<Rightarrow> py_str" where
  "str_of s = map of_char s"


section \<open>Errors\<close>

text \<open>
  Every exception that the modelled code can raise is a constructor; a function that can
  raise returns \<open>error + 'a\<close> with \<open>Inl\<close> for the exception.
  \<open>UpdateRefsError\<close> carries its message (a \<open>str\<close>) and its \<open>ref_status\<close> keyword
  argument, a dictionary kept as an association list in insertion order.
\<close>

datatype error =
    GitProtocolError string
  | SendPackError string
  | UpdateRefsError py_str "(string \<times> string) list"
  | AssertionError py_str
  | NotImplementedError
  | NotGitRepository
  | TypeError
  | IndexError
  | ValueError
  | AttributeError
  | KeyError
  | StructError
  | UnicodeDecodeError
  | UnicodeEncodeError
  | HangupException
  | RecursionError
  | UnexpectedResponse string

text \<open>Sequencing of two steps that can raise: the second runs only if the first returned.\<close>

definition bind_err :: "error + 'a \<Rightarrow> ('a \<Rightarrow> error + 'b) \<Rightarrow> error + 'b" where
  "bind_err m f = (case m of Inl e \<Rightarrow> Inl e | Inr x \<Rightarrow> f x)"

text \<open>
  \<open>s.encode('utf-8')\<close>: one to four bytes for each code point; a surrogate (and a number
  that is no code point) raises.
\<close>

definition utf8_encode_cp :: "nat \<Rightarrow> error + string" where
  "utf8_encode_cp c =
     (if c < 0x80 then Inr [char_of c]
      else if c < 0x800 then Inr [char_of (0xC0 + c div 64), char_of (0x80 + c mod 64)]
      else if c < 0x10000 then
        (if 0xD800 \<le> c \<and> c \<le> 0xDFFF then Inl UnicodeEncodeError
         else Inr [char_of (0xE0 + c div 4096), char_of (0x80 + c div 64 mod 64),
                   char_of (0x80 + c mod 64)])
      else if c < 0x110000 then
        Inr [char_of (0xF0 + c div 262144), char_of (0x80 + c div 4096 mod 64),
             char_of (0x80 + c div 64 mod 64), char_of (0x80 + c mod 64)]
      else Inl UnicodeEncodeError)"

fun utf8_encode :: "py_str \<Rightarrow> error + string" where
  "utf8_encode [] = Inr []"
| "utf8_encode (c # cs) =
     bind_err (utf8_encode_cp c) (\<lambda>b. bind_err (utf8_encode cs) (\<lambda>bs. Inr (b @ bs)))"

text \<open>
  \<open>b.decode('utf-8')\<close>, the strict decoder: the first byte gives the length of the
  sequence (\<open>0\<close> for a byte that starts none), the following bytes must be continuation
  bytes, and overlong forms, surrogates and values above \<open>0x10FFFF\<close> are refused.
\<close>

definition is_cont :: "char \<Rightarrow> bool" where
  "is_cont b = (0x80 \<le> (of_char b :: nat) \<and> (of_char b :: nat) \<le> 0xBF)"

definition cont_bits :: "char \<Rightarrow> nat" where
  "cont_bits b = of_char b mod 64"

definition utf8_seq_len :: "nat \<Rightarrow> nat" where
  "utf8_seq_len n =
     (if n < 0x80 then 1
      else if 0xC2 \<le> n \<and> n \<le> 0xDF then 2
      else if 0xE0 \<le> n \<and> n \<le> 0xEF then 3
      else if 0xF0 \<le> n \<and> n \<le> 0xF4 then 4
      else 0)"

definition utf8_decode_seq :: "string \<Rightarrow> error + nat" where
  "utf8_decode_seq s =
     (case s of
        [b] \<Rightarrow> Inr (of_char b)
      | [b, b1] \<Rightarrow>
          if is_cont b1 then Inr ((of_char b - 0xC0) * 64 + cont_bits b1)
          else Inl UnicodeDecodeError
      | [b, b1, b2] \<Rightarrow>
          if is_cont b1 \<and> is_cont b2
             \<and> \<not> (of_char b = (0xE0 :: nat) \<and> (of_char b1 :: nat) < 0xA0)
             \<and> \<not> (of_char b = (0xED :: nat) \<and> (0x9F :: nat) < of_char b1)
          then Inr (((of_char b - 0xE0) * 64 + cont_bits b1) * 64 + cont_bits b2)
          else Inl UnicodeDecodeError
      | [b, b1, b2, b3] \<Rightarrow>
          if is_cont b1 \<and> is_cont b2 \<and> is_cont b3
             \<and> \<not> (of_char b = (0xF0 :: nat) \<and> (of_char b1 :: nat) < 0x90)
             \<and> \<not> (of_char b = (0xF4 :: nat) \<and> (0x8F :: nat) < of_char b1)
          then Inr ((((of_char b - 0xF0) * 64 + cont_bits b1) * 64 + cont_bits b2) * 64
                    + cont_bits b3)
          else Inl UnicodeDecodeError
      | _ \<Rightarrow> Inl UnicodeDecodeError)"

function utf8_decode :: "string \<Rightarrow> error + py_str" where
  "utf8_decode [] = Inr []"
| "utf8_decode (b # bs) =
     (let k = utf8_seq_len (of_char b) in
      if k = 0 \<or> length (b # bs) < k then Inl UnicodeDecodeError
      else bind_err (utf8_decode_seq (take k (b # bs)))
             (\<lambda>c. bind_err (utf8_decode (drop k (b # bs))) (\<lambda>cs. Inr (c # cs))))"
  by pat_completeness auto
termination
  by (relation "measure length") auto


section \<open>client.py: ReportStatusParser\<close>

record ReportStatusParser =
  done_flag :: bool
  pack_status :: "string option"
  ref_status_ok :: bool
  ref_statuses :: "string list"

text \<open>\<open>ReportStatusParser.__init__\<close>\<close>

definition ReportStatusParser_init :: ReportStatusParser where
  "ReportStatusParser_init =
     \<lparr>done_flag = False, pack_status = None, ref_status_ok = True, ref_statuses = []\<rparr>"

text \<open>
  The body of the \<open>for status in self._ref_statuses\<close> loop of \<open>check\<close>, on the pair of
  the \<open>ref_status\<close> dictionary and the \<open>ok\<close> set. A dictionary store
  \<open>ref_status[ref] = status\<close> is \<open>AList.update\<close>: it replaces the value of a key that is
  present and appends a new key at the end.
\<close>

definition check_status ::
  "string \<Rightarrow> (string \<times> string) list \<times> string set \<Rightarrow> (string \<times> string) list \<times> string set" where
  "check_status line acc =
     (case acc of (ref_status, ok) \<Rightarrow>
        if \<not> has_sp line then (ref_status, ok)
        else (case split1 SP line of (status, ref) \<Rightarrow>
          if status = ''ng'' then
            (if has_sp ref
             then (case split1 SP ref of (ref', status') \<Rightarrow>
                     (AList.update ref' status' ref_status, ok))
             else (AList.update ref status ref_status, ok))
          else (AList.update ref status ref_status, insert ref ok)))"

fun check_statuses ::
  "string list \<Rightarrow> (string \<times> string) list \<times> string set \<Rightarrow> (string \<times> string) list \<times> string set" where
  "check_statuses [] acc = acc"
| "check_statuses (l # ls) acc = check_statuses ls (check_status l acc)"

text \<open>
  The \<open>raise UpdateRefsError(...)\<close> statement of \<open>check\<close>. Its message is built
  first: every key of \<open>ref_status\<close> that is not in \<open>ok\<close> is decoded as UTF-8, in the
  order of the dictionary, and a key that is not valid UTF-8 raises
  \<open>UnicodeDecodeError\<close> instead; the decoded keys are joined by a comma and a space.
\<close>

fun decode_refs :: "string list \<Rightarrow> error + py_str list" where
  "decode_refs [] = Inr []"
| "decode_refs (r # rs) =
     bind_err (utf8_decode r) (\<lambda>c. bind_err (decode_refs rs) (\<lambda>cs. Inr (c # cs)))"

definition raise_update_refs :: "(string \<times> string) list \<times> string set \<Rightarrow> error + unit" where
  "raise_update_refs acc =
     (case acc of (ref_status, ok) \<Rightarrow>
        bind_err (decode_refs (filter (\<lambda>ref. ref \<notin> ok) (map fst ref_status)))
          (\<lambda>names. Inl (UpdateRefsError
                          (join (str_of '', '') names @ str_of '' failed to update'')
                          ref_status)))"

text \<open>\<open>ReportStatusParser.check\<close>: \<open>Inr ()\<close> is a silent return.\<close>

definition check :: "ReportStatusParser \<Rightarrow> error + unit" where
  "check p =
     (if pack_status p \<noteq> Some ''unpack ok'' \<and> pack_status p \<noteq> None
      then Inl (SendPackError (the (pack_status p)))
      else if \<not> ref_status_ok p
      then raise_update_refs (check_statuses (ref_statuses p) ([], {}))
      else Inr ())"

text \<open>\<open>ReportStatusParser.handle_packet\<close>; a packet is \<open>None\<close> for a flush.\<close>

definition handle_packet :: "string option \<Rightarrow> ReportStatusParser \<Rightarrow> error + ReportStatusParser" where
  "handle_packet pkt p =
     (if done_flag p then Inl (GitProtocolError ''received more data after status report'')
      else (case pkt of
        None \<Rightarrow> Inr (p\<lparr>done_flag := True\<rparr>)
      | Some b \<Rightarrow>
          if pack_status p = None then Inr (p\<lparr>pack_status := Some (strip b)\<rparr>)
          else Inr (p\<lparr>ref_statuses := ref_statuses p @ [strip b],
                      ref_status_ok := (if \<not> startswith (strip b) ''ok '' then False
                                        else ref_status_ok p)\<rparr>)))"

text \<open>Feeding a sequence of packets to \<open>handle_packet\<close>, stopping at the first exception.\<close>

fun handle_packets :: "string option list \<Rightarrow> ReportStatusParser \<Rightarrow> error + ReportStatusParser" where
  "handle_packets [] p = Inr p"
| "handle_packets (pkt # pkts) p =
     (case handle_packet pkt p of Inl e \<Rightarrow> Inl e | Inr p' \<Rightarrow> handle_packets pkts p')"

text \<open>The report-status conversation: the packets are handled, then \<open>check\<close> is called.\<close>

definition report_status :: "string option list \<Rightarrow> error + unit" where
  "report_status pkts =
     (case handle_packets pkts ReportStatusParser_init of Inl e \<Rightarrow> Inl e | Inr p \<Rightarrow> check p)"


text \<open>
  The ref-status lines of a status report as the server is meant to send them,
  \<open>ok <ref>\<close> and \<open>ng <ref> <reason>\<close>, used to state what \<open>check\<close> does on
  well-formed input: \<open>render_line\<close> is the line on the wire, \<open>line_entry\<close> the ref
  with the status string the line reports, and \<open>wf_line\<close> says that \<open>strip\<close> leaves
  the line as it is, that the ref of an \<open>ng\<close> line holds no space and that it is
  valid UTF-8 (\<open>decodes\<close>).
\<close>

definition decodes :: "string \<Rightarrow> bool" where
  "decodes b = (case utf8_decode b of Inl e \<Rightarrow> False | Inr cs \<Rightarrow> True)"

datatype ref_line = OkLine string | NgLine string string

fun render_line :: "ref_line \<Rightarrow> string" where
  "render_line (OkLine r) = ''ok '' @ r"
| "render_line (NgLine r s) = ''ng '' @ r @ '' '' @ s"

fun line_entry :: "ref_line \<Rightarrow> string \<times> string" where
  "line_entry (OkLine r) = (r, ''ok'')"
| "line_entry (NgLine r s) = (r, s)"

fun wf_line :: "ref_line \<Rightarrow> bool" where
  "wf_line (OkLine r) = (r \<noteq> [] \<and> \<not> is_ws (last r))"
| "wf_line (NgLine r s) = (\<not> has_sp r \<and> decodes r \<and> s \<noteq> [] \<and> \<not> is_ws (last s))"

fun is_ng :: "ref_line \<Rightarrow> bool" where
  "is_ng (OkLine r) = False"
| "is_ng (NgLine r s) = True"


section \<open>index.py: the index codec\<close>

subsection \<open>struct.pack and struct.unpack\<close>

text \<open>
  The formats of the \<open>struct\<close> module that the codec uses, all big-endian: \<open>L\<close> is an
  unsigned 32-bit integer, \<open>H\<close> an unsigned 16-bit integer, \<open>20s\<close> a string of 20 bytes.
  Python integers are unbounded, and \<open>struct.pack\<close> raises \<open>struct.error\<close> on a number
  that does not fit; a \<open>20s\<close> argument is cut or NUL-padded to 20 bytes;
  \<open>struct.unpack\<close> raises on a buffer of another length than the format's.
\<close>

definition be4 :: "int \<Rightarrow> string" where
  "be4 x = [char_of (x div 2 ^ 24), char_of (x div 2 ^ 16), char_of (x div 2 ^ 8), char_of x]"

definition be2 :: "int \<Rightarrow> string" where
  "be2 x = [char_of (x div 2 ^ 8), char_of x]"

definition pack_L :: "int \<Rightarrow> error + string" where
  "pack_L x = (if 0 \<le> x \<and> x < 2 ^ 32 then Inr (be4 x) else Inl StructError)"

definition pack_H :: "int \<Rightarrow> error + string" where
  "pack_H x = (if 0 \<le> x \<and> x < 2 ^ 16 then Inr (be2 x) else Inl StructError)"

definition pack_20s :: "string \<Rightarrow> string" where
  "pack_20s s = take 20 (s @ replicate 20 NUL)"

fun pack_Ls :: "int list \<Rightarrow> error + string" where
  "pack_Ls [] = Inr []"
| "pack_Ls (x # xs) = bind_err (pack_L x) (\<lambda>b. bind_err (pack_Ls xs) (\<lambda>bs. Inr (b @ bs)))"

definition be_int :: "string \<Rightarrow> int" where
  "be_int bs = foldl (\<lambda>acc b. acc * 256 + of_char b) 0 bs"

definition unpack_LL :: "string \<Rightarrow> error + int \<times> int" where
  "unpack_LL b =
     (if length b \<noteq> 8 then Inl StructError
      else Inr (be_int (take 4 b), be_int (take 4 (drop 4 b))))"

text \<open>\<open>struct.unpack(">LLLLLL20sH", b)\<close>: the six integers, the hash and the flags.\<close>

definition unpack_entry_fields :: "string \<Rightarrow> error + (int list \<times> string \<times> int)" where
  "unpack_entry_fields b =
     (if length b \<noteq> 46 then Inl StructError
      else Inr (map (\<lambda>i. be_int (take 4 (drop (4 * i) b))) [0..<6],
                take 20 (drop 24 b), be_int (drop 44 b)))"

subsection \<open>Entries and files\<close>

text \<open>
  An index entry is the tuple \<open>(name, ctime, mtime, dev, ino, mode, uid, gid, size, sha,
  flags)\<close>: here the pair of the name \<open>x[0]\<close> and a record of the ten other components
  \<open>tuple(x[1:])\<close>, which is also what the dictionary of \<open>read_index_dict\<close> stores under
  the name. The name is a \<open>str\<close>. A time is an integer or a pair of seconds and
  nanoseconds (a \<open>float\<close> time is not modelled). \<open>Sha1Sum\<close> is a class of
  \<open>dulwich.objects\<close>: modelled from the spec, a 20-byte object identifier, kept as the
  bytes that \<open>bytes(sha)\<close> gives and \<open>Sha1Sum(b)\<close> takes.
\<close>

datatype cache_time = TimeInt int | TimePair int int

record index_value =
  e_ctime :: cache_time
  e_mtime :: cache_time
  e_dev :: int
  e_ino :: int
  e_mode :: int
  e_uid :: int
  e_gid :: int
  e_size :: int
  e_sha :: string
  e_flags :: int

type_synonym index_entry = "py_str \<times> index_value"

text \<open>
  A file open for reading: its content and the position \<open>f.tell()\<close>. \<open>f.read(n)\<close>
  returns the next \<open>n\<close> bytes, or fewer at the end of the file.
\<close>

record rfile =
  contents :: string
  pos :: nat

definition open_rfile :: "string \<Rightarrow> rfile" where
  "open_rfile b = \<lparr>contents = b, pos = 0\<rparr>"

definition f_read :: "nat \<Rightarrow> rfile \<Rightarrow> string \<times> rfile" where
  "f_read n f =
     (let b = take n (drop (pos f) (contents f)) in (b, f\<lparr>pos := pos f + length b\<rparr>))"

text \<open>
  A file open for writing is the bytes written so far; \<open>f.tell()\<close> is their number and
  \<open>f.write(b)\<close> appends.
\<close>

type_synonym wfile = string

definition f_write :: "string \<Rightarrow> wfile \<Rightarrow> wfile" where
  "f_write b f = f @ b"

subsection \<open>The codec\<close>

definition read_cache_time :: "rfile \<Rightarrow> error + (cache_time \<times> rfile)" where
  "read_cache_time f =
     (case f_read 8 f of (b, f') \<Rightarrow>
        bind_err (unpack_LL b) (\<lambda>(s, n). Inr (TimePair s n, f')))"

definition write_cache_time :: "wfile \<Rightarrow> cache_time \<Rightarrow> error + wfile" where
  "write_cache_time f t =
     (case (case t of TimeInt s \<Rightarrow> (s, 0) | TimePair s n \<Rightarrow> (s, n)) of (s, n) \<Rightarrow>
        bind_err (pack_Ls [s, n]) (\<lambda>b. Inr (f_write b f)))"

definition read_cache_entry :: "rfile \<Rightarrow> error + (index_entry \<times> rfile)" where
  "read_cache_entry f =
     (let beginoffset = pos f in
      bind_err (read_cache_time f) (\<lambda>(ctime, f1).
      bind_err (read_cache_time f1) (\<lambda>(mtime, f2).
      case f_read (20 + 4 * 6 + 2) f2 of (b, f3) \<Rightarrow>
      bind_err (unpack_entry_fields b) (\<lambda>(ls, sha, flags).
      case f_read (nat (flags AND 0x0fff)) f3 of (nb, f4) \<Rightarrow>
      bind_err (utf8_decode nb) (\<lambda>name.
      let real_size = (int (pos f4) - int beginoffset + 8) AND NOT 7 in
      case f_read (nat (int beginoffset + real_size - int (pos f4))) f4 of (data, f5) \<Rightarrow>
      Inr ((name,
            \<lparr>e_ctime = ctime, e_mtime = mtime, e_dev = ls ! 0, e_ino = ls ! 1, e_mode = ls ! 2,
             e_uid = ls ! 3, e_gid = ls ! 4, e_size = ls ! 5, e_sha = sha,
             e_flags = flags AND NOT 0x0fff\<rparr>), f5))))))"

definition write_cache_entry :: "wfile \<Rightarrow> index_entry \<Rightarrow> error + wfile" where
  "write_cache_entry f entry =
     (let beginoffset = length f in
      case entry of (name, v) \<Rightarrow>
      bind_err (write_cache_time f (e_ctime v)) (\<lambda>f1.
      bind_err (write_cache_time f1 (e_mtime v)) (\<lambda>f2.
      let flags = int (length name) OR (e_flags v AND NOT 0x0fff) in
      bind_err (pack_Ls [e_dev v, e_ino v, e_mode v, e_uid v, e_gid v, e_size v]) (\<lambda>b1.
      bind_err (pack_H flags) (\<lambda>b2.
      let f3 = f_write (b1 @ pack_20s (e_sha v) @ b2) f2 in
      bind_err (utf8_encode name) (\<lambda>nb.
      let f4 = f_write nb f3;
          real_size = (int (length f4) - int beginoffset + 8) AND NOT 7 in
      Inr (f_write (replicate (nat (int beginoffset + real_size - int (length f4))) NUL) f4)))))))"

text \<open>The loop \<open>for i in range(num_entries): yield read_cache_entry(f)\<close>.\<close>

fun read_entries :: "nat \<Rightarrow> rfile \<Rightarrow> error + (index_entry list \<times> rfile)" where
  "read_entries 0 f = Inr ([], f)"
| "read_entries (Suc n) f =
     bind_err (read_cache_entry f) (\<lambda>(x, f').
     bind_err (read_entries n f') (\<lambda>(xs, f''). Inr (x # xs, f'')))"

text \<open>
  \<open>read_index\<close>, with the generator run to its end. The message of the first
  \<open>AssertionError\<close> is kept without the \<open>repr\<close> of the header that follows it.
\<close>

definition read_index :: "rfile \<Rightarrow> error + (index_entry list \<times> rfile)" where
  "read_index f =
     (case f_read 4 f of (header, f1) \<Rightarrow>
      if header \<noteq> ''DIRC'' then Inl (AssertionError (str_of ''Invalid index file header''))
      else case f_read (4 * 2) f1 of (b, f2) \<Rightarrow>
        bind_err (unpack_LL b) (\<lambda>(version, num_entries).
          if version \<noteq> 1 \<and> version \<noteq> 2 then Inl (AssertionError [])
          else read_entries (nat num_entries) f2))"

text \<open>\<open>read_index_dict\<close>: the store \<open>ret[x[0]] = tuple(x[1:])\<close> for each entry read.\<close>

definition read_index_dict :: "rfile \<Rightarrow> error + (py_str \<times> index_value) list" where
  "read_index_dict f =
     bind_err (read_index f) (\<lambda>(xs, f').
       Inr (foldl (\<lambda>ret x. AList.update (fst x) (snd x) ret) [] xs))"

fun write_entries :: "wfile \<Rightarrow> index_entry list \<Rightarrow> error + wfile" where
  "write_entries f [] = Inr f"
| "write_entries f (x # xs) = bind_err (write_cache_entry f x) (\<lambda>f'. write_entries f' xs)"

definition write_index :: "wfile \<Rightarrow> index_entry list \<Rightarrow> error + wfile" where
  "write_index f entries =
     (let f1 = f_write ''DIRC'' f in
      bind_err (pack_Ls [2, int (length entries)]) (\<lambda>b.
      write_entries (f_write b f1) entries))"

text \<open>
  The entries for which the round trip is stated: a name of 1 to 4095 ASCII characters,
  times given as pairs, every number in the range of its field, a hash of 20 bytes.
\<close>

definition u32 :: "int \<Rightarrow> bool" where
  "u32 x = (0 \<le> x \<and> x < 2 ^ 32)"

definition valid_time :: "cache_time \<Rightarrow> bool" where
  "valid_time t = (case t of TimeInt s \<Rightarrow> False | TimePair s n \<Rightarrow> u32 s \<and> u32 n)"

definition valid_entry :: "index_entry \<Rightarrow> bool" where
  "valid_entry e =
     (case e of (name, v) \<Rightarrow>
        1 \<le> length name \<and> length name \<le> 4095 \<and> list_all (\<lambda>c. c < 128) name
        \<and> valid_time (e_ctime v) \<and> valid_time (e_mtime v)
        \<and> u32 (e_dev v) \<and> u32 (e_ino v) \<and> u32 (e_mode v)
        \<and> u32 (e_uid v) \<and> u32 (e_gid v) \<and> u32 (e_size v)
        \<and> length (e_sha v) = 20
        \<and> 0 \<le> e_flags v \<and> e_flags v < 2 ^ 16)"

text \<open>What \<open>read_cache_entry\<close> returns as the flags: the low 12 bits cleared.\<close>

definition clear_len :: "index_entry \<Rightarrow> index_entry" where
  "clear_len e = (case e of (name, v) \<Rightarrow> (name, v\<lparr>e_flags := e_flags v AND NOT 0x0fff\<rparr>))"


text \<open>
  The bytes of a record for an entry that can be written, field by field: what the proofs
  below show \<open>write_cache_entry\<close> to append and \<open>read_cache_entry\<close> to consume.
\<close>

definition time_bytes :: "cache_time \<Rightarrow> string" where
  "time_bytes t = (case t of TimeInt s \<Rightarrow> be4 s @ be4 0 | TimePair s n \<Rightarrow> be4 s @ be4 n)"

definition entry_bytes :: "index_entry \<Rightarrow> string" where
  "entry_bytes e =
     (case e of (name, v) \<Rightarrow>
        time_bytes (e_ctime v) @ time_bytes (e_mtime v)
        @ be4 (e_dev v) @ be4 (e_ino v) @ be4 (e_mode v)
        @ be4 (e_uid v) @ be4 (e_gid v) @ be4 (e_size v)
        @ e_sha v
        @ be2 (int (length name) + (e_flags v - e_flags v mod 4096))
        @ map char_of name
        @ replicate (8 - (62 + length name) mod 8) NUL)"


text \<open>\<open>write_index\<close> into an empty file, then \<open>read_index_dict\<close> on the bytes written.\<close>

definition write_then_read :: "index_entry list \<Rightarrow> error + (py_str \<times> index_value) list" where
  "write_then_read entries =
     bind_err (write_index [] entries) (\<lambda>b. read_index_dict (open_rfile b))"


section \<open>client.py: the negotiation engine\<close>

subsection \<open>Collaborators that are not part of the sources\<close>

text \<open>
  Modelled from the spec: \<open>Sha1Sum\<close> and \<open>ZERO_SHA\<close> of \<open>dulwich.objects\<close> and
  \<open>dulwich.protocol\<close>. An object identifier on the wire is its hex text; the model
  identifies a \<open>Sha1Sum\<close> with that text, so \<open>Sha1Sum(s).hex_bytes\<close> is \<open>s\<close> and two
  identifiers are equal when their texts are. \<open>ZERO_SHA\<close> is the all-zero identifier.
\<close>

type_synonym sha = string

definition ZERO_SHA :: sha where
  "ZERO_SHA = replicate 40 (CHR ''0'')"

text \<open>
  Modelled from the spec: \<open>extract_capabilities\<close> of \<open>dulwich.protocol\<close> splits the
  first ref line on the first NUL byte; without a NUL the capability list is empty,
  otherwise it is the space-separated tokens after it.
\<close>

definition extract_capabilities :: "string \<Rightarrow> string \<times> string list" where
  "extract_capabilities text =
     (if NUL \<notin> set text then (text, [])
      else (case split1 NUL text of (ref, caps) \<Rightarrow> (ref, split_all SP caps)))"

text \<open>
  Modelled from the spec: the \<open>Protocol\<close> object of \<open>dulwich.protocol\<close>, at the level
  of packet lines. The connection is the sequence of packet lines that the server sends
  (\<open>inp\<close>, not yet read) and the sequence that the client has written (\<open>out\<close>);
  \<open>None\<close> is the flush packet. Reading from a stream that has ended is a protocol error.
  The same record keeps what the caller's collaborators see: the calls of the pack-content
  generator (\<open>gen_calls\<close>), the object lists handed to \<open>write_pack_objects\<close>
  (\<open>packs\<close>), and the graph walker, a finite sequence of identifiers that \<open>next\<close>
  still has to produce (\<open>haves\<close>) with the arguments of its \<open>ack\<close> calls so far
  (\<open>acks\<close>).
\<close>

record world =
  inp :: "string option list"
  out :: "string option list"
  gen_calls :: "(sha list \<times> sha list) list"
  packs :: "string list list"
  haves :: "sha list"
  acks :: "string list"

definition write_pkt_line :: "string option \<Rightarrow> world \<Rightarrow> world" where
  "write_pkt_line pkt w = w\<lparr>out := out w @ [pkt]\<rparr>"

definition read_pkt_line :: "world \<Rightarrow> error + (string option \<times> world)" where
  "read_pkt_line w =
     (case inp w of
        [] \<Rightarrow> Inl (GitProtocolError ''truncated stream'')
      | pkt # rest \<Rightarrow> Inr (pkt, w\<lparr>inp := rest\<rparr>))"

text \<open>\<open>graph_walker.ack(sha)\<close>\<close>

definition ack :: "string \<Rightarrow> world \<Rightarrow> world" where
  "ack s w = w\<lparr>acks := acks w @ [s]\<rparr>"

subsection \<open>Capabilities and refs\<close>

definition COMMON_CAPABILITIES :: "string list" where
  "COMMON_CAPABILITIES = [''ofs-delta'', ''side-band-64k'']"

definition FETCH_CAPABILITIES :: "string list" where
  "FETCH_CAPABILITIES = [''multi_ack'', ''multi_ack_detailed''] @ COMMON_CAPABILITIES"

definition SEND_CAPABILITIES :: "string list" where
  "SEND_CAPABILITIES = [''report-status''] @ COMMON_CAPABILITIES"

text \<open>
  \<open>GitClient.__init__\<close>: the two capability lists of a client.
\<close>

definition fetch_capabilities :: "bool \<Rightarrow> string list" where
  "fetch_capabilities thin_packs =
     (if thin_packs then FETCH_CAPABILITIES @ [''thin-pack''] else FETCH_CAPABILITIES)"

definition send_capabilities :: "string list" where
  "send_capabilities = SEND_CAPABILITIES"

text \<open>
  A ref dictionary is an association list in insertion order. \<open>d.get(k, ZERO_SHA)\<close>,
  \<open>list(d.values())\<close>, \<open>list(d.keys())\<close> and the equality \<open>d1 == d2\<close> of two
  dictionaries (the same keys with the same values):
\<close>

type_synonym refs = "(string \<times> sha) list"

definition get_sha :: "refs \<Rightarrow> string \<Rightarrow> sha" where
  "get_sha d k = (case map_of d k of None \<Rightarrow> ZERO_SHA | Some s \<Rightarrow> s)"

definition dict_eq :: "refs \<Rightarrow> refs \<Rightarrow> bool" where
  "dict_eq d1 d2 = list_all (\<lambda>k. map_of d1 k = map_of d2 k) (map fst d1 @ map fst d2)"

text \<open>
  \<open>GitClient._read_refs\<close>: the loop over \<open>proto.read_pkt_seq()\<close>, which reads packet
  lines up to the flush packet, on the packets still to read; it returns the refs, the
  server capabilities (\<open>None\<close> if no line was read) and the rest of the input.
\<close>

fun read_refs_loop ::
  "string option list \<Rightarrow> refs \<Rightarrow> string list option
   \<Rightarrow> error + (refs \<times> string list option \<times> string option list)" where
  "read_refs_loop [] refs caps = Inl (GitProtocolError ''truncated stream'')"
| "read_refs_loop (None # rest) refs caps = Inr (refs, caps, rest)"
| "read_refs_loop (Some pkt # rest) refs caps =
     (if \<not> has_sp (rstrip_nl pkt) then Inl ValueError
      else (case split1 SP (rstrip_nl pkt) of (sha, ref) \<Rightarrow>
        if sha = ''ERR'' then Inl (GitProtocolError ref)
        else (case caps of
                None \<Rightarrow>
                  (case extract_capabilities ref of (ref', server_capabilities) \<Rightarrow>
                     read_refs_loop rest (AList.update ref' sha refs) (Some server_capabilities))
              | Some c \<Rightarrow> read_refs_loop rest (AList.update ref sha refs) caps)))"

definition read_refs :: "world \<Rightarrow> error + ((refs \<times> string list option) \<times> world)" where
  "read_refs w =
     bind_err (read_refs_loop (inp w) [] None)
       (\<lambda>(refs, caps, rest). Inr ((refs, caps), w\<lparr>inp := rest\<rparr>))"

subsection \<open>Push\<close>

text \<open>
  \<open>GitClient._handle_receive_pack_head\<close>. The loop runs over a Python set of ref
  names, whose iteration order is not determined by the program: the order is the
  argument \<open>names\<close>. The state of the loop is the connection, the \<open>want\<close> list and the
  flag \<open>sent_capabilities\<close>.
\<close>

fun receive_pack_refs ::
  "string list \<Rightarrow> refs \<Rightarrow> refs \<Rightarrow> string list \<Rightarrow> sha list
   \<Rightarrow> world \<times> sha list \<times> bool \<Rightarrow> world \<times> sha list \<times> bool" where
  "receive_pack_refs capabilities old_refs new_refs [] have st = st"
| "receive_pack_refs capabilities old_refs new_refs (refname # names) have (w, want, sent) =
     (let old_sha1 = get_sha old_refs refname;
          new_sha1 = get_sha new_refs refname;
          (w', sent') =
            (if old_sha1 \<noteq> new_sha1 then
               (if sent
                then (write_pkt_line (Some (old_sha1 @ '' '' @ new_sha1 @ '' '' @ refname)) w,
                      sent)
                else (write_pkt_line
                        (Some (old_sha1 @ '' '' @ new_sha1 @ '' '' @ refname @ [NUL]
                               @ join '' '' capabilities)) w,
                      True))
             else (w, sent));
          want' = (if new_sha1 \<notin> set have \<and> new_sha1 \<noteq> ZERO_SHA then want @ [new_sha1]
                   else want)
      in receive_pack_refs capabilities old_refs new_refs names have (w', want', sent'))"

definition handle_receive_pack_head ::
  "(string list \<Rightarrow> string list) \<Rightarrow> string list \<Rightarrow> refs \<Rightarrow> refs \<Rightarrow> world
   \<Rightarrow> (sha list \<times> sha list) \<times> world" where
  "handle_receive_pack_head set_order capabilities old_refs new_refs w =
     (let have = filter (\<lambda>x. \<not> x = ZERO_SHA) (map snd old_refs);
          (w', want, sent) =
            receive_pack_refs capabilities old_refs new_refs
              (set_order (map fst new_refs @ map fst old_refs)) have (w, [], False)
      in ((have, want), write_pkt_line None w'))"

text \<open>
  The part of \<open>send_pack\<close> that both clients share: from the call of
  \<open>_handle_receive_pack_head\<close> to the end. \<open>generate_pack_contents\<close> is the caller's
  generator, each call of which is recorded; \<open>write_pack_objects\<close> is recorded with
  the objects it is given; \<open>finish\<close> is what follows the pack on the connection
  (\<open>_handle_receive_pack_tail\<close>, for the HTTP client after \<open>_smart_request\<close>), which
  reads the server's answer through collaborators that are not part of the sources.
\<close>

definition send_pack_body ::
  "(string list \<Rightarrow> string list) \<Rightarrow> (sha list \<Rightarrow> sha list \<Rightarrow> string list)
   \<Rightarrow> (string list \<Rightarrow> world \<Rightarrow> error + world)
   \<Rightarrow> string list \<Rightarrow> refs \<Rightarrow> refs \<Rightarrow> world \<Rightarrow> error + (refs \<times> world)" where
  "send_pack_body set_order generate_pack_contents finish negotiated old_refs new_refs w =
     (case handle_receive_pack_head set_order negotiated old_refs new_refs w of
        ((have, want), w1) \<Rightarrow>
          if want = [] \<and> dict_eq old_refs new_refs then Inr (new_refs, w1)
          else
            (let objects = generate_pack_contents have want;
                 w2 = w1\<lparr>gen_calls := gen_calls w1 @ [(have, want)]\<rparr>;
                 w3 = (if length objects > 0 then w2\<lparr>packs := packs w2 @ [objects]\<rparr> else w2)
             in bind_err (finish negotiated w3) (\<lambda>w4. Inr (new_refs, w4))))"

text \<open>
  \<open>TraditionalGitClient.send_pack\<close> on an open connection. \<open>determine_wants\<close>
  returns the new refs or \<open>None\<close>. The membership test on the server capabilities
  raises \<open>TypeError\<close> when they are \<open>None\<close>.
\<close>

definition send_pack ::
  "(string list \<Rightarrow> string list) \<Rightarrow> (refs \<Rightarrow> refs option)
   \<Rightarrow> (sha list \<Rightarrow> sha list \<Rightarrow> string list)
   \<Rightarrow> (string list \<Rightarrow> world \<Rightarrow> error + world)
   \<Rightarrow> world \<Rightarrow> error + (refs \<times> world)" where
  "send_pack set_order determine_wants generate_pack_contents finish w =
     bind_err (read_refs w) (\<lambda>((old_refs, server_capabilities), w1).
       case server_capabilities of
         None \<Rightarrow> Inl TypeError
       | Some sc \<Rightarrow>
           (let negotiated_capabilities =
                  (if ''report-status'' \<notin> set sc then remove1 ''report-status'' send_capabilities
                   else send_capabilities)
            in case determine_wants old_refs of
                 None \<Rightarrow> Inr (old_refs, write_pkt_line None w1)
               | Some new_refs \<Rightarrow>
                   send_pack_body set_order generate_pack_contents finish
                     negotiated_capabilities old_refs new_refs w1))"


subsection \<open>Fetch\<close>

text \<open>
  The message of the assertion in \<open>_handle_upload_pack_head\<close>, after the status:
  \<open> not in ('continue', 'ready', 'common)\<close>, written as the source writes it.
\<close>

definition not_in_message :: string where
  "not_in_message =
     '' not in ('' @ [CHR 0x27] @ ''continue'' @ [CHR 0x27] @ '', '' @ [CHR 0x27] @ ''ready''
     @ [CHR 0x27] @ '', '' @ [CHR 0x27] @ ''common)''"

text \<open>
  The \<open>while have:\<close> loop of \<open>_handle_upload_pack_head\<close>, on the identifiers that
  the graph walker still has to produce: \<open>next(graph_walker)\<close> takes the first of them
  and gives \<open>None\<close>, which ends the loop, when there is none left. \<open>can_read\<close> is the
  transport's predicate, asked after the \<open>have\<close> line is written. A flush packet where
  a line is expected has no \<open>rstrip\<close>; a line \<open>ACK\<close> with fewer than three parts has no
  \<open>parts[1]\<close> or \<open>parts[2]\<close>; the message of the assertion decodes the status.
\<close>

fun have_loop :: "(world \<Rightarrow> bool) \<Rightarrow> sha list \<Rightarrow> world \<Rightarrow> error + world" where
  "have_loop can_read [] w = Inr (w\<lparr>haves := []\<rparr>)"
| "have_loop can_read (have # rest) w =
     (let w1 = write_pkt_line (Some (''have '' @ have @ [LF])) (w\<lparr>haves := rest\<rparr>) in
      if can_read w1 then
        bind_err (read_pkt_line w1) (\<lambda>(pkt, w2).
          case pkt of
            None \<Rightarrow> Inl AttributeError
          | Some b \<Rightarrow>
              (case split_all SP (rstrip_nl b) of
                 [] \<Rightarrow> Inl IndexError
               | p0 # ps \<Rightarrow>
                   if p0 = ''ACK'' then
                     (case ps of
                        [] \<Rightarrow> Inl IndexError
                      | p1 # ps' \<Rightarrow>
                          (case ps' of
                             [] \<Rightarrow> Inl IndexError
                           | p2 # ps'' \<Rightarrow>
                               if p2 = ''continue'' \<or> p2 = ''common''
                               then have_loop can_read rest (ack p1 w2)
                               else if p2 = ''ready'' then Inr (ack p1 w2)
                               else bind_err (utf8_decode p2)
                                      (\<lambda>s. Inl (AssertionError (s @ str_of not_in_message)))))
                   else have_loop can_read rest w2))
      else have_loop can_read rest w1)"

text \<open>\<open>GitClient._handle_upload_pack_head\<close>; \<open>wants[0]\<close> of an empty list raises.\<close>

definition handle_upload_pack_head ::
  "string list \<Rightarrow> sha list \<Rightarrow> (world \<Rightarrow> bool) \<Rightarrow> world \<Rightarrow> error + world" where
  "handle_upload_pack_head capabilities wants can_read w =
     (case wants of
        [] \<Rightarrow> Inl IndexError
      | want0 # wants' \<Rightarrow>
          (let w1 = write_pkt_line
                      (Some (''want '' @ want0 @ '' '' @ join '' '' capabilities @ [LF])) w;
               w2 = foldl (\<lambda>w' want. write_pkt_line (Some (''want '' @ want @ [LF])) w') w1 wants';
               w3 = write_pkt_line None w2
           in bind_err (have_loop can_read (haves w3) w3)
                (\<lambda>w4. Inr (write_pkt_line (Some (''done'' @ [LF])) w4))))"

text \<open>
  \<open>TraditionalGitClient.fetch_pack\<close> on an open connection. \<open>determine_wants\<close>
  returns a list of identifiers or \<open>None\<close>; \<open>not wants\<close> holds for \<open>None\<close> and for
  the empty list. \<open>finish\<close> is \<open>_handle_upload_pack_tail\<close>, which reads the pack
  through collaborators that are not part of the sources.
\<close>

definition fetch_pack ::
  "bool \<Rightarrow> (refs \<Rightarrow> sha list option) \<Rightarrow> (world \<Rightarrow> bool)
   \<Rightarrow> (string list \<Rightarrow> world \<Rightarrow> error + world)
   \<Rightarrow> world \<Rightarrow> error + (refs \<times> world)" where
  "fetch_pack thin_packs determine_wants can_read finish w =
     bind_err (read_refs w) (\<lambda>((refs, server_capabilities), w1).
       let negotiated_capabilities = fetch_capabilities thin_packs in
       case determine_wants refs of
         None \<Rightarrow> Inr (refs, write_pkt_line None w1)
       | Some wants \<Rightarrow>
           if wants = [] then Inr (refs, write_pkt_line None w1)
           else bind_err (handle_upload_pack_head negotiated_capabilities wants can_read w1)
                  (\<lambda>w2. bind_err (finish negotiated_capabilities w2) (\<lambda>w3. Inr (refs, w3))))"

subsection \<open>The HTTP client\<close>

text \<open>
  The answer to the \<open>info/refs\<close> request: the status code, the content type and the
  packet lines of the body. \<open>HttpGitClient._discover_references\<close> returns the refs and
  the server capabilities, and sets \<open>self.dumb\<close>, returned here with them.
\<close>

record http_response =
  code :: nat
  content_type :: string
  body :: "string option list"

text \<open>\<open>list(proto.read_pkt_seq())\<close>: the packet lines up to the flush packet.\<close>

fun read_pkt_seq :: "string option list \<Rightarrow> error + (string list \<times> string option list)" where
  "read_pkt_seq [] = Inl (GitProtocolError ''truncated stream'')"
| "read_pkt_seq (None # rest) = Inr ([], rest)"
| "read_pkt_seq (Some p # rest) = bind_err (read_pkt_seq rest) (\<lambda>(ps, r). Inr (p # ps, r))"

text \<open>A connection on which nothing was read or written, with the given input.\<close>

definition new_world :: "string option list \<Rightarrow> sha list \<Rightarrow> world" where
  "new_world i hs = \<lparr>inp = i, out = [], gen_calls = [], packs = [], haves = hs, acks = []\<rparr>"

definition discover_references ::
  "string \<Rightarrow> http_response \<Rightarrow> error + ((refs \<times> string list option) \<times> bool)" where
  "discover_references service resp =
     (if code resp = 404 then Inl NotGitRepository
      else if code resp \<noteq> 200 then Inl (GitProtocolError ''unexpected http response'')
      else
        (let dumb = \<not> startswith (content_type resp) ''application/x-git-'' in
         bind_err
           (if \<not> dumb then
              bind_err (read_pkt_seq (body resp)) (\<lambda>(pkts, rest).
                if pkts \<noteq> [''# service='' @ service @ [LF]]
                then Inl (GitProtocolError ''unexpected first line from smart server'')
                else Inr rest)
            else Inr (body resp))
           (\<lambda>rest. bind_err (read_refs (new_world rest []))
                      (\<lambda>(r, w). Inr (r, dumb)))))"

text \<open>
  \<open>HttpGitClient.send_pack\<close>. The request is written to a new buffer; \<open>finish\<close> is
  \<open>_smart_request\<close> followed by \<open>_handle_receive_pack_tail\<close> on the response.
\<close>

definition http_send_pack ::
  "(string list \<Rightarrow> string list) \<Rightarrow> (refs \<Rightarrow> refs option)
   \<Rightarrow> (sha list \<Rightarrow> sha list \<Rightarrow> string list)
   \<Rightarrow> (string list \<Rightarrow> world \<Rightarrow> error + world)
   \<Rightarrow> http_response \<Rightarrow> error + (refs \<times> world)" where
  "http_send_pack set_order determine_wants generate_pack_contents finish resp =
     bind_err (discover_references ''git-receive-pack'' resp)
       (\<lambda>((old_refs, server_capabilities), dumb).
          let negotiated_capabilities = send_capabilities in
          case determine_wants old_refs of
            None \<Rightarrow> Inr (old_refs, new_world [] [])
          | Some new_refs \<Rightarrow>
              if dumb then Inl NotImplementedError
              else send_pack_body set_order generate_pack_contents finish
                     negotiated_capabilities old_refs new_refs (new_world [] []))"

text \<open>
  \<open>HttpGitClient.fetch_pack\<close>. \<open>list(server_capabilities)\<close> raises \<open>TypeError\<close> on
  \<open>None\<close>; the head of the request is written with a \<open>can_read\<close> that is always false;
  \<open>finish\<close> is \<open>_smart_request\<close> followed by \<open>_handle_upload_pack_tail\<close>.
\<close>

definition http_fetch_pack ::
  "(refs \<Rightarrow> sha list option) \<Rightarrow> sha list
   \<Rightarrow> (string list \<Rightarrow> world \<Rightarrow> error + world)
   \<Rightarrow> http_response \<Rightarrow> error + (refs \<times> world)" where
  "http_fetch_pack determine_wants graph_walker finish resp =
     bind_err (discover_references ''git-upload-pack'' resp)
       (\<lambda>((refs, server_capabilities), dumb).
          case server_capabilities of
            None \<Rightarrow> Inl TypeError
          | Some negotiated_capabilities \<Rightarrow>
              (case determine_wants refs of
                 None \<Rightarrow> Inr (refs, new_world [] graph_walker)
               | Some wants \<Rightarrow>
                   if wants = [] then Inr (refs, new_world [] graph_walker)
                   else if dumb then Inl NotImplementedError
                   else bind_err (handle_upload_pack_head negotiated_capabilities wants
                                    (\<lambda>w. False) (new_world [] graph_walker))
                          (\<lambda>w2. bind_err (finish negotiated_capabilities w2)
                                   (\<lambda>w3. Inr (refs, w3)))))"


subsection \<open>Example collaborators\<close>

text \<open>
  Callbacks and transports used to run the clients on concrete inputs: selection functions
  that want nothing, that keep the advertised refs, and that move \<open>refs/heads/master\<close>;
  a generator without objects; a tail that reads nothing; a transport that reports pending
  data whenever unread input is left.
\<close>

definition want_nothing :: "refs \<Rightarrow> sha list option" where
  "want_nothing r = Some []"

definition want_all :: "refs \<Rightarrow> sha list option" where
  "want_all r = Some (map snd r)"

definition keep_refs :: "refs \<Rightarrow> refs option" where
  "keep_refs r = Some r"

definition move_master :: "refs \<Rightarrow> refs option" where
  "move_master r = Some [(''refs/heads/master'', replicate 40 (CHR ''c''))]"

definition no_objects :: "sha list \<Rightarrow> sha list \<Rightarrow> string list" where
  "no_objects have want = []"

definition no_tail :: "string list \<Rightarrow> world \<Rightarrow> error + world" where
  "no_tail capabilities w = Inr w"

definition input_pending :: "world \<Rightarrow> bool" where
  "input_pending w = (inp w \<noteq> [])"

text \<open>
  An advertisement of one ref by a server that offers \<open>ofs-delta\<close> only, as the
  traditional transports read it and as the body of a smart HTTP answer.
\<close>

definition adv_master :: "string option list" where
  "adv_master =
     [Some (replicate 40 (CHR ''a'') @ '' refs/heads/master'' @ [NUL] @ ''ofs-delta'' @ [LF]),
      None]"

definition http_adv :: "string \<Rightarrow> http_response" where
  "http_adv service =
     \<lparr>code = 200, content_type = ''application/x-'' @ service @ ''-advertisement'',
      body = Some (''# service='' @ service @ [LF]) # None # adv_master\<rparr>"


section \<open>Properties of the report-status parser\<close>

text \<open>
  C10: \<open>check\<close> called on a parser whose pack status is still unset and whose ref-status
  flag is still set returns silently; in particular on a parser that never handled a packet.
\<close>

theorem check_unset_status_ok:
  "pack_status p = None \<Longrightarrow> ref_status_ok p \<Longrightarrow> check p = Inr ()"
  by (simp add: check_def)

theorem check_unset_status_ok_witness:
  "pack_status ReportStatusParser_init = None \<and> ref_status_ok ReportStatusParser_init
   \<and> check ReportStatusParser_init = Inr ()"
  using check_unset_status_ok [of ReportStatusParser_init]
  by (simp add: ReportStatusParser_init_def)

lemma handle_packets_lines:
  "\<not> done_flag p \<Longrightarrow> pack_status p \<noteq> None \<Longrightarrow>
   handle_packets (map Some ls) p =
     Inr (p\<lparr>ref_statuses := ref_statuses p @ map strip ls,
            ref_status_ok := (ref_status_ok p \<and> (\<forall>l\<in>set ls. startswith (strip l) ''ok ''))\<rparr>)"
proof (induction ls arbitrary: p)
  case Nil
  then show ?case by simp
next
  case (Cons l ls)
  then show ?case
    by (cases "startswith (strip l) ''ok ''"; cases "ref_status_ok p") (auto simp: handle_packet_def)
qed

lemma handle_packets_append:
  "handle_packets (xs @ ys) p =
     (case handle_packets xs p of Inl e \<Rightarrow> Inl e | Inr p' \<Rightarrow> handle_packets ys p')"
  by (induction xs arbitrary: p) (auto split: sum.splits)

lemma strip_unpack_ok: "strip ''unpack ok'' = ''unpack ok''"
  by (simp add: strip_def rstrip_by_def is_ws_def SP_def LF_def)

lemma report_status_lines:
  "report_status (Some ''unpack ok'' # map Some ls @ [None]) =
     (if \<forall>l\<in>set ls. startswith (strip l) ''ok '' then Inr ()
      else raise_update_refs (check_statuses (map strip ls) ([], {})))"
  by (simp add: report_status_def handle_packet_def ReportStatusParser_init_def
      handle_packets_append handle_packets_lines strip_unpack_ok check_def)

lemma check_statuses_filter:
  "check_statuses ls acc = check_statuses (filter has_sp ls) acc"
  by (induction ls arbitrary: acc) (auto simp: check_status_def)

lemma startswith_ok_has_sp: "startswith s ''ok '' \<Longrightarrow> has_sp s"
  unfolding startswith_def has_sp_def SP_def
  by (metis in_set_takeD list.set_intros(1,2))

lemma raise_update_refs_raises: "raise_update_refs acc \<noteq> Inr u"
  by (cases acc) (auto simp: raise_update_refs_def bind_err_def split: sum.splits)

lemma raise_update_refs_empty:
  "raise_update_refs ([], {}) = Inl (UpdateRefsError (str_of '' failed to update'') [])"
  by (simp add: raise_update_refs_def bind_err_def)

text \<open>
  One line without a space after \<open>unpack ok\<close>: \<open>check\<close> raises the update-rejected
  error, with an empty dictionary.
\<close>

theorem malformed_line_counterexample:
  "report_status [Some ''unpack ok'', Some ''garbage'', None]
   = Inl (UpdateRefsError (str_of '' failed to update'') [])"
  by code_simp

text \<open>
  C5 (as amended): for every report that starts with \<open>unpack ok\<close>, the ref-status lines
  without a space add nothing to what \<open>check\<close> builds: the dictionary and the \<open>ok\<close> set
  are those of the report with these lines left out, whatever stands before or after them.
  But each of them clears the ref-status flag, so a report with at least one such line makes
  \<open>check\<close> raise; if all its lines are of this kind the error is the update-rejected
  error with an empty dictionary. Only a report with no ref-status line at all (or with
  \<open>ok\<close> lines only) returns silently.
\<close>

theorem malformed_lines_raise:
  "((\<exists>l\<in>set ls. \<not> has_sp (strip l)) \<longrightarrow>
      report_status (Some ''unpack ok'' # map Some ls @ [None]) =
        raise_update_refs (check_statuses (filter has_sp (map strip ls)) ([], {}))
      \<and> report_status (Some ''unpack ok'' # map Some ls @ [None]) \<noteq> Inr ())
   \<and> (ls \<noteq> [] \<and> (\<forall>l\<in>set ls. \<not> has_sp (strip l)) \<longrightarrow>
      report_status (Some ''unpack ok'' # map Some ls @ [None]) =
        Inl (UpdateRefsError (str_of '' failed to update'') []))
   \<and> (ls = [] \<longrightarrow> report_status (Some ''unpack ok'' # map Some ls @ [None]) = Inr ())"
proof -
  let ?R = "report_status (Some ''unpack ok'' # map Some ls @ [None])"
  have g: "?R = raise_update_refs (check_statuses (filter has_sp (map strip ls)) ([], {}))"
    if "\<exists>l\<in>set ls. \<not> has_sp (strip l)"
  proof -
    from that have "\<not> (\<forall>l\<in>set ls. startswith (strip l) ''ok '')"
      using startswith_ok_has_sp by blast
    then have "?R = raise_update_refs (check_statuses (map strip ls) ([], {}))"
      by (simp only: report_status_lines if_False)
    then show ?thesis using check_statuses_filter [of "map strip ls"] by simp
  qed
  have a: "?R = Inl (UpdateRefsError (str_of '' failed to update'') [])"
    if "ls \<noteq> []" "\<forall>l\<in>set ls. \<not> has_sp (strip l)"
  proof -
    from that have e: "\<exists>l\<in>set ls. \<not> has_sp (strip l)" by (cases ls) auto
    from that(2) have "filter has_sp (map strip ls) = []" by (simp add: filter_empty_conv)
    then show ?thesis using g [OF e] by (simp add: raise_update_refs_empty)
  qed
  have n: "?R = Inr ()" if "ls = []"
    using that report_status_lines [of "[]"] by simp
  show ?thesis using g a n raise_update_refs_raises by metis
qed

theorem malformed_lines_raise_witness:
  "\<not> has_sp (strip ''garbage'')
   \<and> report_status (Some ''unpack ok'' # map Some [''garbage'', ''ng refs/heads/b bad''] @ [None]) =
       raise_update_refs
         (check_statuses (filter has_sp (map strip [''garbage'', ''ng refs/heads/b bad''])) ([], {}))
   \<and> report_status (Some ''unpack ok'' # map Some [''garbage'', ''ng refs/heads/b bad''] @ [None])
       \<noteq> Inr ()
   \<and> report_status (Some ''unpack ok'' # map Some [''garbage'', ''ok''] @ [None]) =
       Inl (UpdateRefsError (str_of '' failed to update'') [])
   \<and> report_status (Some ''unpack ok'' # map Some [] @ [None]) = Inr ()"
proof -
  have h1: "\<not> has_sp (strip ''garbage'')" and h2: "\<not> has_sp (strip ''ok'')"
    by (simp_all add: strip_def rstrip_by_def is_ws_def SP_def LF_def has_sp_def)
  have m: "\<exists>l\<in>set [''garbage'', ''ng refs/heads/b bad'']. \<not> has_sp (strip l)"
    using h1 by simp
  have a: "[''garbage'', ''ok''] \<noteq> [] \<and> (\<forall>l\<in>set [''garbage'', ''ok'']. \<not> has_sp (strip l))"
    using h1 h2 by simp
  show ?thesis
    using h1 m a malformed_lines_raise [of "[''garbage'', ''ng refs/heads/b bad'']"]
      malformed_lines_raise [of "[''garbage'', ''ok'']"]
      malformed_lines_raise [of "[]"]
    by blast
qed

lemma strip_id:
  "xs \<noteq> [] \<Longrightarrow> \<not> is_ws (hd xs) \<Longrightarrow> \<not> is_ws (last xs) \<Longrightarrow> strip xs = xs"
proof -
  assume a: "xs \<noteq> []" "\<not> is_ws (hd xs)" "\<not> is_ws (last xs)"
  then have "dropWhile is_ws (rev xs) = rev xs"
    by (cases "rev xs") (auto simp: last_rev [symmetric] hd_rev)
  then have "rstrip_by is_ws xs = xs" by (simp add: rstrip_by_def)
  moreover have "dropWhile is_ws xs = xs" using a by (cases xs) auto
  ultimately show ?thesis by (simp add: strip_def)
qed

lemma split1_sep: "sep \<notin> set a \<Longrightarrow> split1 sep (a @ sep # b) = (a, b)"
  by (induction a) (auto simp: split1_def)

lemma strip_render: "wf_line l \<Longrightarrow> strip (render_line l) = render_line l"
  by (cases l) (auto intro!: strip_id simp: is_ws_def SP_def LF_def)

lemma startswith_render: "startswith (render_line l) ''ok '' = (\<not> is_ng l)"
  by (cases l) (auto simp: startswith_def)

lemma check_status_render:
  "wf_line l \<Longrightarrow> check_status (render_line l) (rs, ok) =
     (AList.update (fst (line_entry l)) (snd (line_entry l)) rs,
      if is_ng l then ok else insert (fst (line_entry l)) ok)"
proof (cases l)
  case (OkLine r)
  have "split1 SP (''ok'' @ SP # r) = (''ok'', r)"
    by (rule split1_sep) (simp add: SP_def)
  then show ?thesis using OkLine by (simp add: check_status_def has_sp_def SP_def)
next
  case (NgLine r s)
  assume w: "wf_line l"
  have 1: "split1 SP (''ng'' @ SP # (r @ SP # s)) = (''ng'', r @ SP # s)"
    by (rule split1_sep) (simp add: SP_def)
  have 2: "split1 SP (r @ SP # s) = (r, s)"
    using w NgLine by (intro split1_sep) (simp add: has_sp_def)
  show ?thesis using NgLine 1 2 by (simp add: check_status_def has_sp_def SP_def)
qed

lemma check_statuses_render:
  "\<forall>l\<in>set ls. wf_line l \<Longrightarrow>
   map_of (fst (check_statuses (map render_line ls) (rs, ok))) =
     map_of (rev (map line_entry ls) @ rs)"
proof (induction ls arbitrary: rs ok)
  case Nil
  then show ?case by simp
next
  case (Cons l ls)
  then have "map_of (fst (check_statuses (map render_line (l # ls)) (rs, ok))) =
     map_of (rev (map line_entry ls) @ AList.update (fst (line_entry l)) (snd (line_entry l)) rs)"
    by (simp add: check_status_render)
  also have "\<dots> = map_of (rev (map line_entry (l # ls)) @ rs)"
    by (simp add: update_conv' map_add_upd [symmetric] del: map_add_upd)
  finally show ?case .
qed

lemma check_statuses_distinct:
  "\<forall>l\<in>set ls. wf_line l \<Longrightarrow> distinct (map fst rs) \<Longrightarrow>
   distinct (map fst (fst (check_statuses (map render_line ls) (rs, ok))))"
proof (induction ls arbitrary: rs ok)
  case Nil
  then show ?case by simp
next
  case (Cons l ls)
  then show ?case by (simp add: check_status_render distinct_update)
qed

lemma check_statuses_ok:
  "\<forall>l\<in>set ls. wf_line l \<Longrightarrow>
   snd (check_statuses (map render_line ls) (rs, ok)) =
     ok \<union> {fst (line_entry l) | l. l \<in> set ls \<and> \<not> is_ng l}"
proof (induction ls arbitrary: rs ok)
  case Nil
  then show ?case by simp
next
  case (Cons l ls)
  then show ?case by (auto simp: check_status_render)
qed

lemma decode_refs_ok:
  "\<forall>r\<in>set rs. decodes r \<Longrightarrow> \<exists>names. decode_refs rs = Inr names"
proof (induction rs)
  case Nil
  then show ?case by simp
next
  case (Cons r rs)
  then obtain names where "decode_refs rs = Inr names" by auto
  moreover obtain c where "utf8_decode r = Inr c"
    using Cons.prems by (auto simp: decodes_def split: sum.splits)
  ultimately show ?case by (simp add: bind_err_def)
qed

lemma ok_refs: "{fst (line_entry l) | l. l \<in> set ls \<and> \<not> is_ng l} = {r. OkLine r \<in> set ls}"
proof -
  have "(\<exists>l. r = fst (line_entry l) \<and> l \<in> set ls \<and> \<not> is_ng l) = (OkLine r \<in> set ls)" for r
  proof
    assume "\<exists>l. r = fst (line_entry l) \<and> l \<in> set ls \<and> \<not> is_ng l"
    then obtain l where l: "r = fst (line_entry l)" "l \<in> set ls" "\<not> is_ng l" by blast
    show "OkLine r \<in> set ls"
    proof (cases l)
      case (OkLine x)
      then show ?thesis using l by simp
    next
      case (NgLine x s)
      then show ?thesis using l by simp
    qed
  next
    assume "OkLine r \<in> set ls"
    then show "\<exists>l. r = fst (line_entry l) \<and> l \<in> set ls \<and> \<not> is_ng l"
      by (intro exI [of _ "OkLine r"]) simp
  qed
  then show ?thesis by simp
qed

lemma all_refs:
  "(\<lambda>l. fst (line_entry l)) ` set ls = {r. OkLine r \<in> set ls} \<union> {r. \<exists>s. NgLine r s \<in> set ls}"
proof -
  have "(r \<in> (\<lambda>l. fst (line_entry l)) ` set ls) =
        (OkLine r \<in> set ls \<or> (\<exists>s. NgLine r s \<in> set ls))" for r
  proof
    assume "r \<in> (\<lambda>l. fst (line_entry l)) ` set ls"
    then obtain l where l: "l \<in> set ls" "r = fst (line_entry l)" by blast
    show "OkLine r \<in> set ls \<or> (\<exists>s. NgLine r s \<in> set ls)"
    proof (cases l)
      case (OkLine x)
      then have "OkLine r \<in> set ls" using l by simp
      then show ?thesis by simp
    next
      case (NgLine x s)
      then have "NgLine r s \<in> set ls" using l by simp
      then show ?thesis by blast
    qed
  next
    assume "OkLine r \<in> set ls \<or> (\<exists>s. NgLine r s \<in> set ls)"
    then show "r \<in> (\<lambda>l. fst (line_entry l)) ` set ls" by (force simp: image_iff)
  qed
  then show ?thesis by blast
qed

text \<open>
  The report of the specification, \<open>unpack ok\<close>, \<open>ok refs/heads/a\<close>,
  \<open>ng refs/heads/b bad\<close>, flush: the dictionary of the error holds
  \<open>refs/heads/a\<close> too, with the status \<open>ok\<close>.
\<close>

theorem report_status_counterexample_ok_ref:
  "report_status [Some ''unpack ok'', Some ''ok refs/heads/a'', Some ''ng refs/heads/b bad'', None]
   = Inl (UpdateRefsError (str_of ''refs/heads/b failed to update'')
            [(''refs/heads/a'', ''ok''), (''refs/heads/b'', ''bad'')])"
  by code_simp

text \<open>
  C1 (as amended): after \<open>unpack ok\<close>, well-formed \<open>ok\<close> and \<open>ng\<close> lines of which
  at least one is \<open>ng\<close> (the refs of the \<open>ng\<close> lines valid UTF-8), and a flush,
  \<open>check\<close> raises the update-rejected error. Its dictionary holds every ref of the
  report: the ref of an \<open>ng\<close> line with its reason, the ref of an \<open>ok\<close> line with the
  string \<open>ok\<close> (a later line for a ref replaces an earlier one). Its message is the one
  that is restricted to the failures: it joins the decoded names of the refs that have an
  \<open>ng\<close> line and no \<open>ok\<close> line, each once, followed by \<open>failed to update\<close>.
\<close>

theorem update_refs_error_mapping:
  assumes "\<forall>l\<in>set ls. wf_line l" and "\<exists>l\<in>set ls. is_ng l"
  shows "\<exists>failed names m.
           report_status (Some ''unpack ok'' # map Some (map render_line ls) @ [None])
             = Inl (UpdateRefsError (join (str_of '', '') names @ str_of '' failed to update'') m)
         \<and> map_of m = map_of (rev (map line_entry ls))
         \<and> dom (map_of m) = {r. OkLine r \<in> set ls} \<union> {r. \<exists>s. NgLine r s \<in> set ls}
         \<and> decode_refs failed = Inr names
         \<and> distinct failed
         \<and> set failed = {r. \<exists>s. NgLine r s \<in> set ls} - {r. OkLine r \<in> set ls}"
proof -
  obtain m ok where c: "check_statuses (map render_line ls) ([], {}) = (m, ok)"
    by (cases "check_statuses (map render_line ls) ([], {})")
  define failed where "failed = filter (\<lambda>ref. ref \<notin> ok) (map fst m)"
  have s: "map strip (map render_line ls) = map render_line ls"
    using assms(1) by (simp add: strip_render)
  have n: "\<not> (\<forall>l\<in>set (map render_line ls). startswith (strip l) ''ok '')"
    using assms by (auto simp: strip_render startswith_render)
  have r: "report_status (Some ''unpack ok'' # map Some (map render_line ls) @ [None])
        = raise_update_refs (m, ok)"
    using n c by (simp only: report_status_lines s if_False)
  have e: "map_of m = map_of (rev (map line_entry ls))"
    using check_statuses_render [OF assms(1), of "[]" "{}"] c by simp
  have "dom (map_of m) = fst ` set (rev (map line_entry ls))"
    unfolding e by (rule dom_map_of_conv_image_fst)
  then have d: "dom (map_of m) = {r. OkLine r \<in> set ls} \<union> {r. \<exists>s. NgLine r s \<in> set ls}"
    using all_refs [of ls] by (simp add: image_image)
  have k: "set (map fst m) = {r. OkLine r \<in> set ls} \<union> {r. \<exists>s. NgLine r s \<in> set ls}"
    using d by (simp add: dom_map_of_conv_image_fst)
  have o: "ok = {r. OkLine r \<in> set ls}"
    using check_statuses_ok [OF assms(1), of "[]" "{}"] c ok_refs [of ls] by simp
  have dm: "distinct (map fst m)"
    using check_statuses_distinct [OF assms(1), of "[]" "{}"] c by simp
  have df: "distinct failed" using dm by (simp add: failed_def)
  have sf: "set failed = {r. \<exists>s. NgLine r s \<in> set ls} - {r. OkLine r \<in> set ls}"
    unfolding failed_def using k o by auto
  have "\<forall>r\<in>set failed. decodes r"
  proof
    fix r assume "r \<in> set failed"
    then obtain s where "NgLine r s \<in> set ls" using sf by blast
    then have "wf_line (NgLine r s)" using assms(1) by blast
    then show "decodes r" by simp
  qed
  then obtain names where nm: "decode_refs failed = Inr names"
    using decode_refs_ok by blast
  have "raise_update_refs (m, ok)
        = Inl (UpdateRefsError (join (str_of '', '') names @ str_of '' failed to update'') m)"
    using nm by (simp add: raise_update_refs_def failed_def bind_err_def)
  then have "report_status (Some ''unpack ok'' # map Some (map render_line ls) @ [None])
             = Inl (UpdateRefsError (join (str_of '', '') names @ str_of '' failed to update'') m)
         \<and> map_of m = map_of (rev (map line_entry ls))
         \<and> dom (map_of m) = {r. OkLine r \<in> set ls} \<union> {r. \<exists>s. NgLine r s \<in> set ls}
         \<and> decode_refs failed = Inr names
         \<and> distinct failed
         \<and> set failed = {r. \<exists>s. NgLine r s \<in> set ls} - {r. OkLine r \<in> set ls}"
    using r e d nm df sf by simp
  then show ?thesis by (intro exI)
qed

theorem update_refs_error_mapping_witness:
  "wf_line (OkLine ''refs/heads/a'') \<and> wf_line (NgLine ''refs/heads/b'' ''bad'')
   \<and> is_ng (NgLine ''refs/heads/b'' ''bad'')
   \<and> (\<exists>failed names m.
         report_status (Some ''unpack ok'' #
            map Some (map render_line [OkLine ''refs/heads/a'', NgLine ''refs/heads/b'' ''bad''])
            @ [None])
           = Inl (UpdateRefsError (join (str_of '', '') names @ str_of '' failed to update'') m)
       \<and> map_of m = map_of (rev (map line_entry
                                   [OkLine ''refs/heads/a'', NgLine ''refs/heads/b'' ''bad'']))
       \<and> dom (map_of m) =
             {r. OkLine r \<in> set [OkLine ''refs/heads/a'', NgLine ''refs/heads/b'' ''bad'']}
           \<union> {r. \<exists>s. NgLine r s \<in> set [OkLine ''refs/heads/a'', NgLine ''refs/heads/b'' ''bad'']}
       \<and> decode_refs failed = Inr names
       \<and> distinct failed
       \<and> set failed =
             {r. \<exists>s. NgLine r s \<in> set [OkLine ''refs/heads/a'', NgLine ''refs/heads/b'' ''bad'']}
           - {r. OkLine r \<in> set [OkLine ''refs/heads/a'', NgLine ''refs/heads/b'' ''bad'']})"
proof -
  have w1: "wf_line (OkLine ''refs/heads/a'')"
    by (simp add: is_ws_def SP_def LF_def)
  have w2: "wf_line (NgLine ''refs/heads/b'' ''bad'')"
    by code_simp
  have w: "\<forall>l\<in>set [OkLine ''refs/heads/a'', NgLine ''refs/heads/b'' ''bad'']. wf_line l"
    using w1 w2 by simp
  have g: "\<exists>l\<in>set [OkLine ''refs/heads/a'', NgLine ''refs/heads/b'' ''bad'']. is_ng l"
    by simp
  have n: "is_ng (NgLine ''refs/heads/b'' ''bad'')" by simp
  show ?thesis
    using w1 w2 n update_refs_error_mapping [OF w g] by (intro conjI)
qed

section \<open>Properties of the index codec\<close>


lemma and_not_mask_int: "(n::int) AND NOT (mask k) = n - take_bit k n"
proof -
  have "n - take_bit k n = n AND NOT (take_bit k n)"
    by (rule disjunctive_diff) (simp add: bit_simps)
  also have "\<dots> = n AND NOT (mask k)"
    by (rule bit_eqI) (auto simp: bit_simps)
  finally show ?thesis by simp
qed

lemma or_low_bits:
  assumes "0 \<le> (l::int)" "l < 2 ^ k"
  shows "l OR (n AND NOT (mask k)) = l + (n AND NOT (mask k))"
proof -
  have t: "take_bit k l = l" using assms by (simp add: take_bit_int_eq_self)
  have "\<not> bit l i \<or> \<not> bit (n AND NOT (mask k)) i" for i
  proof (cases "i < k")
    case True
    then show ?thesis by (simp add: bit_simps)
  next
    case False
    then have "\<not> bit (take_bit k l) i" by (simp add: bit_simps)
    then show ?thesis using t by simp
  qed
  then show ?thesis by (rule disjunctive_add [symmetric])
qed

lemma and_not_7: "(n::int) AND NOT 7 = n - n mod 8"
  using and_not_mask_int [of n 3] by (simp add: take_bit_eq_mod mask_eq_exp_minus_1)

lemma and_4095: "(n::int) AND 4095 = n mod 4096"
  using take_bit_eq_mask [of 12 n] by (simp add: take_bit_eq_mod mask_eq_exp_minus_1)

lemma and_not_4095: "(n::int) AND NOT 4095 = n - n mod 4096"
  using and_not_mask_int [of n 12] by (simp add: take_bit_eq_mod mask_eq_exp_minus_1)

lemma or_len_flags:
  "0 \<le> (l::int) \<Longrightarrow> l < 4096 \<Longrightarrow> l OR (n AND NOT 4095) = l + (n - n mod 4096)"
  using or_low_bits [of l 12 n] and_not_4095 [of n] by (simp add: mask_eq_exp_minus_1)

lemma be_int_4:
  assumes "0 \<le> (x::int)" "x < 2 ^ 32"
  shows "be_int (be4 x) = x"
proof -
  have a: "x div 16777216 mod 256 = x div 16777216" using assms by simp
  have b1: "x div 65536 div 256 = x div 16777216"
    using zdiv_zmult2_eq [of 256 x 65536] by simp
  have b: "x div 16777216 * 256 + x div 65536 mod 256 = x div 65536"
    using div_mult_mod_eq [of "x div 65536" 256] b1 by simp
  have c1: "x div 256 div 256 = x div 65536"
    using zdiv_zmult2_eq [of 256 x 256] by simp
  have c: "x div 65536 * 256 + x div 256 mod 256 = x div 256"
    using div_mult_mod_eq [of "x div 256" 256] c1 by simp
  have d: "x div 256 * 256 + x mod 256 = x" by simp
  have e: "be_int (be4 x) =
      ((x div 16777216 mod 256 * 256 + x div 65536 mod 256) * 256 + x div 256 mod 256) * 256
      + x mod 256"
    by (simp add: be_int_def be4_def)
  show ?thesis by (simp only: e a b c d)
qed

lemma be_int_2:
  assumes "0 \<le> (x::int)" "x < 2 ^ 16"
  shows "be_int (be2 x) = x"
proof -
  have a: "x div 256 mod 256 = x div 256" using assms by simp
  have d: "x div 256 * 256 + x mod 256 = x" by simp
  have e: "be_int (be2 x) = x div 256 mod 256 * 256 + x mod 256"
    by (simp add: be_int_def be2_def)
  show ?thesis by (simp only: e a d)
qed

lemma pack_Ls_length: "pack_Ls xs = Inr b \<Longrightarrow> length b = 4 * length xs"
proof (induction xs arbitrary: b)
  case Nil
  then show ?case by simp
next
  case (Cons x xs)
  then show ?case
    by (auto simp: bind_err_def pack_L_def be4_def split: sum.splits if_splits)
qed

lemma pack_H_length: "pack_H x = Inr b \<Longrightarrow> length b = 2"
  by (auto simp: pack_H_def be2_def split: if_splits)

lemma pack_20s_length: "length (pack_20s s) = 20"
  by (simp add: pack_20s_def)

lemma write_cache_time_length:
  "write_cache_time f t = Inr f' \<Longrightarrow> \<exists>b. f' = f @ b \<and> length b = 8"
proof -
  assume a: "write_cache_time f t = Inr f'"
  obtain s n where sn: "(case t of TimeInt s \<Rightarrow> (s, 0) | TimePair s n \<Rightarrow> (s, n)) = (s, n)"
    by (cases t) auto
  from a sn obtain b where b: "pack_Ls [s, n] = Inr b" "f' = f @ b"
    by (auto simp: write_cache_time_def bind_err_def f_write_def split: sum.splits)
  from pack_Ls_length [OF b(1)] b(2) show ?thesis by simp
qed

lemma bind_err_Inr: "bind_err m f = Inr y \<Longrightarrow> \<exists>x. m = Inr x \<and> f x = Inr y"
  by (cases m) (auto simp: bind_err_def)

lemma pad_count:
  "nat (int b + ((int (b + n) - int b + 8) AND NOT 7) - int (b + n)) = 8 - n mod 8"
proof -
  have 1: "int (b + n) - int b + 8 = int n + 8" by simp
  have 2: "(int n + 8) AND NOT 7 = (int n + 8) - (int n + 8) mod 8" by (rule and_not_7)
  have 3: "(int n + 8) mod 8 = int (n mod 8)" by (simp add: zmod_int)
  have 4: "n mod 8 < 8" by simp
  have "int b + (int n + 8 - int (n mod 8)) - int (b + n) = int (8 - n mod 8)"
    using 4 by (simp add: of_nat_diff)
  then show ?thesis unfolding 1 2 3 by (simp only: nat_int)
qed

lemma write_cache_entry_shape:
  assumes "write_cache_entry f (name, v) = Inr f'"
  shows "\<exists>hdr nb. utf8_encode name = Inr nb \<and> length hdr = 62
           \<and> f' = f @ hdr @ nb @ replicate (8 - (62 + length nb) mod 8) NUL"
proof -
  from assms have a0: "bind_err (write_cache_time f (e_ctime v)) (\<lambda>f1.
      bind_err (write_cache_time f1 (e_mtime v)) (\<lambda>f2.
      bind_err (pack_Ls [e_dev v, e_ino v, e_mode v, e_uid v, e_gid v, e_size v]) (\<lambda>b1.
      bind_err (pack_H (int (length name) OR (e_flags v AND NOT 0x0fff))) (\<lambda>b2.
      bind_err (utf8_encode name) (\<lambda>nb.
      Inr (f_write (replicate (nat (int (length f) +
            ((int (length (f_write nb (f_write (b1 @ pack_20s (e_sha v) @ b2) f2)))
               - int (length f) + 8) AND NOT 7)
            - int (length (f_write nb (f_write (b1 @ pack_20s (e_sha v) @ b2) f2))))) NUL)
          (f_write nb (f_write (b1 @ pack_20s (e_sha v) @ b2) f2)))))))) = Inr f'"
    by (simp only: write_cache_entry_def Let_def prod.case)
  from bind_err_Inr [OF a0] obtain f1 where
    1: "write_cache_time f (e_ctime v) = Inr f1" and a1: "bind_err (write_cache_time f1 (e_mtime v)) (\<lambda>f2.
      bind_err (pack_Ls [e_dev v, e_ino v, e_mode v, e_uid v, e_gid v, e_size v]) (\<lambda>b1.
      bind_err (pack_H (int (length name) OR (e_flags v AND NOT 0x0fff))) (\<lambda>b2.
      bind_err (utf8_encode name) (\<lambda>nb.
      Inr (f_write (replicate (nat (int (length f) +
            ((int (length (f_write nb (f_write (b1 @ pack_20s (e_sha v) @ b2) f2)))
               - int (length f) + 8) AND NOT 7)
            - int (length (f_write nb (f_write (b1 @ pack_20s (e_sha v) @ b2) f2))))) NUL)
          (f_write nb (f_write (b1 @ pack_20s (e_sha v) @ b2) f2))))))) = Inr f'"
    by blast
  from bind_err_Inr [OF a1] obtain f2 where
    2: "write_cache_time f1 (e_mtime v) = Inr f2" and a2: "
      bind_err (pack_Ls [e_dev v, e_ino v, e_mode v, e_uid v, e_gid v, e_size v]) (\<lambda>b1.
      bind_err (pack_H (int (length name) OR (e_flags v AND NOT 0x0fff))) (\<lambda>b2.
      bind_err (utf8_encode name) (\<lambda>nb.
      Inr (f_write (replicate (nat (int (length f) +
            ((int (length (f_write nb (f_write (b1 @ pack_20s (e_sha v) @ b2) f2)))
               - int (length f) + 8) AND NOT 7)
            - int (length (f_write nb (f_write (b1 @ pack_20s (e_sha v) @ b2) f2))))) NUL)
          (f_write nb (f_write (b1 @ pack_20s (e_sha v) @ b2) f2)))))) = Inr f'"
    by blast
  from bind_err_Inr [OF a2] obtain b1 where
    3: "pack_Ls [e_dev v, e_ino v, e_mode v, e_uid v, e_gid v, e_size v] = Inr b1" and a3: "
      bind_err (pack_H (int (length name) OR (e_flags v AND NOT 0x0fff))) (\<lambda>b2.
      bind_err (utf8_encode name) (\<lambda>nb.
      Inr (f_write (replicate (nat (int (length f) +
            ((int (length (f_write nb (f_write (b1 @ pack_20s (e_sha v) @ b2) f2)))
               - int (length f) + 8) AND NOT 7)
            - int (length (f_write nb (f_write (b1 @ pack_20s (e_sha v) @ b2) f2))))) NUL)
          (f_write nb (f_write (b1 @ pack_20s (e_sha v) @ b2) f2))))) = Inr f'"
    by blast
  from bind_err_Inr [OF a3] obtain b2 where
    4: "pack_H (int (length name) OR (e_flags v AND NOT 0x0fff)) = Inr b2" and a4: "
      bind_err (utf8_encode name) (\<lambda>nb.
      Inr (f_write (replicate (nat (int (length f) +
            ((int (length (f_write nb (f_write (b1 @ pack_20s (e_sha v) @ b2) f2)))
               - int (length f) + 8) AND NOT 7)
            - int (length (f_write nb (f_write (b1 @ pack_20s (e_sha v) @ b2) f2))))) NUL)
          (f_write nb (f_write (b1 @ pack_20s (e_sha v) @ b2) f2)))) = Inr f'"
    by blast
  from bind_err_Inr [OF a4] obtain nb where
    5: "utf8_encode name = Inr nb" and 6: "
      Inr (f_write (replicate (nat (int (length f) +
            ((int (length (f_write nb (f_write (b1 @ pack_20s (e_sha v) @ b2) f2)))
               - int (length f) + 8) AND NOT 7)
            - int (length (f_write nb (f_write (b1 @ pack_20s (e_sha v) @ b2) f2))))) NUL)
          (f_write nb (f_write (b1 @ pack_20s (e_sha v) @ b2) f2))) = (Inr f' :: error + wfile)"
    by blast
  from write_cache_time_length [OF 1] obtain c where c: "f1 = f @ c" "length c = 8" by blast
  from write_cache_time_length [OF 2] obtain m where m: "f2 = f1 @ m" "length m = 8" by blast
  define hdr where "hdr = c @ m @ b1 @ pack_20s (e_sha v) @ b2"
  have lh: "length hdr = 62"
    using c m pack_Ls_length [OF 3] pack_H_length [OF 4] by (simp add: hdr_def pack_20s_length)
  have e: "f_write nb (f_write (b1 @ pack_20s (e_sha v) @ b2) f2) = f @ hdr @ nb"
    using c m by (simp add: f_write_def hdr_def)
  have l: "length (f @ hdr @ nb) = length f + length (hdr @ nb)" by simp
  have "f' = f @ hdr @ nb @ replicate (8 - length (hdr @ nb) mod 8) NUL"
    using 6 unfolding e l pad_count by (simp add: f_write_def)
  then have "f' = f @ hdr @ nb @ replicate (8 - (62 + length nb) mod 8) NUL"
    using lh by simp
  then show ?thesis using 5 lh by blast
qed

text \<open>
  An entry with a path of two bytes: the 62 bytes of the fixed part (ten fields of 4
  bytes, the hash of 20 bytes, the flags of 2) and the path make 64 bytes, a multiple of 8,
  and the record ends with eight NUL bytes: it is 72 bytes long.
\<close>

theorem write_cache_entry_aligned_counterexample:
  "write_cache_entry []
        ([0x61, 0x62],
         \<lparr>e_ctime = TimePair 1230680220 0, e_mtime = TimePair 1230680220 0, e_dev = 2050,
          e_ino = 3761020, e_mode = 33188, e_uid = 1000, e_gid = 1000, e_size = 0,
          e_sha = replicate 20 (CHR 0xE6), e_flags = 0\<rparr>)
   = Inr (be4 1230680220 @ be4 0 @ be4 1230680220 @ be4 0 @ be4 2050 @ be4 3761020
          @ be4 33188 @ be4 1000 @ be4 1000 @ be4 0 @ replicate 20 (CHR 0xE6) @ be2 2
          @ ''ab'' @ replicate 8 NUL)"
  by code_simp

text \<open>
  C4 (as amended): every record that \<open>write_cache_entry\<close> emits is the 62 bytes of the
  fixed part, the bytes of the path and then 1 to 8 NUL bytes, as many as make the length
  of the record, measured from its own start, a multiple of 8: \<open>8 - n mod 8\<close> of them
  for an unpadded length \<open>n\<close>. A record whose unpadded length is already a multiple of 8
  carries eight padding bytes, not none.
\<close>

theorem write_cache_entry_padding:
  assumes "write_cache_entry f (name, v) = Inr f'"
  shows "\<exists>hdr nb. utf8_encode name = Inr nb \<and> length hdr = 62
           \<and> f' = f @ hdr @ nb @ replicate (8 - (62 + length nb) mod 8) NUL
           \<and> 1 \<le> 8 - (62 + length nb) mod 8 \<and> 8 - (62 + length nb) mod 8 \<le> 8
           \<and> (length f' - length f) mod 8 = 0"
proof -
  from write_cache_entry_shape [OF assms] obtain hdr nb where
    h: "utf8_encode name = Inr nb" "length hdr = 62"
       "f' = f @ hdr @ nb @ replicate (8 - (62 + length nb) mod 8) NUL"
    by blast
  have p1: "1 \<le> 8 - (62 + length nb) mod 8" by presburger
  have p2: "8 - (62 + length nb) mod 8 \<le> 8" by presburger
  have "length f' - length f = 62 + length nb + (8 - (62 + length nb) mod 8)"
    using h by simp
  moreover have "(62 + length nb + (8 - (62 + length nb) mod 8)) mod 8 = 0"
    by presburger
  ultimately have z: "(length f' - length f) mod 8 = 0" by simp
  show ?thesis
    by (intro exI [of _ hdr] exI [of _ nb] conjI) (rule h(1) h(2) h(3) p1 p2 z)+
qed

theorem write_cache_entry_padding_witness:
  "write_cache_entry ''DIRC''
        ([0x61, 0x62, 0x63],
         \<lparr>e_ctime = TimePair 1230680220 0, e_mtime = TimePair 1230680220 0, e_dev = 2050,
          e_ino = 3761020, e_mode = 33188, e_uid = 1000, e_gid = 1000, e_size = 0,
          e_sha = replicate 20 (CHR 0xE6), e_flags = 0\<rparr>)
     = Inr (''DIRC'' @ be4 1230680220 @ be4 0 @ be4 1230680220 @ be4 0 @ be4 2050 @ be4 3761020
            @ be4 33188 @ be4 1000 @ be4 1000 @ be4 0 @ replicate 20 (CHR 0xE6) @ be2 3
            @ ''abc'' @ replicate 7 NUL)
   \<and> (\<exists>hdr nb. utf8_encode [0x61, 0x62, 0x63] = Inr nb \<and> length hdr = 62
         \<and> ''DIRC'' @ be4 1230680220 @ be4 0 @ be4 1230680220 @ be4 0 @ be4 2050 @ be4 3761020
            @ be4 33188 @ be4 1000 @ be4 1000 @ be4 0 @ replicate 20 (CHR 0xE6) @ be2 3
            @ ''abc'' @ replicate 7 NUL
           = ''DIRC'' @ hdr @ nb @ replicate (8 - (62 + length nb) mod 8) NUL
         \<and> 1 \<le> 8 - (62 + length nb) mod 8 \<and> 8 - (62 + length nb) mod 8 \<le> 8
         \<and> (length (''DIRC'' @ be4 1230680220 @ be4 0 @ be4 1230680220 @ be4 0 @ be4 2050
                     @ be4 3761020 @ be4 33188 @ be4 1000 @ be4 1000 @ be4 0
                     @ replicate 20 (CHR 0xE6) @ be2 3 @ ''abc'' @ replicate 7 NUL)
              - length ''DIRC'') mod 8 = 0)"
proof -
  have h: "write_cache_entry ''DIRC''
        ([0x61, 0x62, 0x63],
         \<lparr>e_ctime = TimePair 1230680220 0, e_mtime = TimePair 1230680220 0, e_dev = 2050,
          e_ino = 3761020, e_mode = 33188, e_uid = 1000, e_gid = 1000, e_size = 0,
          e_sha = replicate 20 (CHR 0xE6), e_flags = 0\<rparr>)
     = Inr (''DIRC'' @ be4 1230680220 @ be4 0 @ be4 1230680220 @ be4 0 @ be4 2050 @ be4 3761020
            @ be4 33188 @ be4 1000 @ be4 1000 @ be4 0 @ replicate 20 (CHR 0xE6) @ be2 3
            @ ''abc'' @ replicate 7 NUL)"
    by code_simp
  show ?thesis using h write_cache_entry_padding [OF h] by (intro conjI)
qed

lemma bind_err_Inr_simp: "bind_err (Inr x) f = f x"
  by (simp add: bind_err_def)

lemma pack_L_ok: "u32 x \<Longrightarrow> pack_L x = Inr (be4 x)"
  by (simp add: pack_L_def u32_def)

lemma length_be4: "length (be4 x) = 4"
  by (simp add: be4_def)

lemma length_be2: "length (be2 x) = 2"
  by (simp add: be2_def)

lemma write_cache_time_ok:
  "valid_time t \<Longrightarrow> write_cache_time f t = Inr (f @ time_bytes t)"
  by (cases t)
     (simp_all add: valid_time_def write_cache_time_def time_bytes_def pack_L_ok
        bind_err_Inr_simp f_write_def)

lemma length_time_bytes: "length (time_bytes t) = 8"
  by (cases t) (simp_all add: time_bytes_def length_be4)

lemma utf8_encode_ascii:
  "list_all (\<lambda>c. c < 128) name \<Longrightarrow> utf8_encode name = Inr (map char_of name)"
  by (induction name) (simp_all add: utf8_encode_cp_def bind_err_Inr_simp)

lemma utf8_decode_ascii:
  "list_all (\<lambda>c. c < 128) name \<Longrightarrow> utf8_decode (map char_of name) = Inr name"
proof (induction name)
  case Nil
  then show ?case by simp
next
  case (Cons c cs)
  then have c: "c < 128" and i: "utf8_decode (map char_of cs) = Inr cs" by simp_all
  have o: "c mod 256 = c" using c by simp
  have k: "utf8_seq_len c = 1" using c by (simp add: utf8_seq_len_def)
  show ?case
    by (simp add: Let_def o k i utf8_decode_seq_def bind_err_Inr_simp)
qed

lemma flags_field:
  assumes "0 \<le> fl" "fl < 2 ^ 16" "n \<le> 4095"
  shows "int n OR (fl AND NOT 0x0fff) = int n + (fl - fl mod 4096)"
    and "0 \<le> int n + (fl - fl mod 4096)"
    and "int n + (fl - fl mod 4096) < 2 ^ 16"
    and "(int n + (fl - fl mod 4096)) mod 4096 = int n"
proof -
  show "int n OR (fl AND NOT 0x0fff) = int n + (fl - fl mod 4096)"
    using assms by (intro or_len_flags) simp_all
  have m: "0 \<le> fl mod 4096" "fl mod 4096 \<le> fl" using assms by (simp_all add: zmod_le_nonneg_dividend)
  show "0 \<le> int n + (fl - fl mod 4096)" using m by simp
  have d: "fl - fl mod 4096 = 4096 * (fl div 4096)"
    by (simp add: minus_mod_eq_mult_div)
  have "fl div 4096 \<le> 15" using assms by simp
  then show "int n + (fl - fl mod 4096) < 2 ^ 16" using assms(3) unfolding d by simp
  show "(int n + (fl - fl mod 4096)) mod 4096 = int n" using assms(3) unfolding d by simp
qed

lemma write_cache_entry_ok:
  assumes "valid_entry e"
  shows "write_cache_entry f e = Inr (f @ entry_bytes e)"
proof -
  obtain name v where e: "e = (name, v)" by (cases e)
  have va: "1 \<le> length name" "length name \<le> 4095" "list_all (\<lambda>c. c < 128) name"
    "valid_time (e_ctime v)" "valid_time (e_mtime v)"
    "u32 (e_dev v)" "u32 (e_ino v)" "u32 (e_mode v)" "u32 (e_uid v)" "u32 (e_gid v)"
    "u32 (e_size v)" "length (e_sha v) = 20" "0 \<le> e_flags v" "e_flags v < 2 ^ 16"
    using assms unfolding e valid_entry_def by simp_all
  note fl = flags_field [OF va(13) va(14) va(2)]
  have 1: "write_cache_time f (e_ctime v) = Inr (f @ time_bytes (e_ctime v))"
    by (rule write_cache_time_ok [OF va(4)])
  have 2: "write_cache_time (f @ time_bytes (e_ctime v)) (e_mtime v)
           = Inr ((f @ time_bytes (e_ctime v)) @ time_bytes (e_mtime v))"
    by (rule write_cache_time_ok [OF va(5)])
  have 3: "pack_Ls [e_dev v, e_ino v, e_mode v, e_uid v, e_gid v, e_size v]
           = Inr (be4 (e_dev v) @ be4 (e_ino v) @ be4 (e_mode v) @ be4 (e_uid v)
                  @ be4 (e_gid v) @ be4 (e_size v))"
    using va by (simp add: pack_L_ok bind_err_Inr_simp)
  have 4: "pack_H (int (length name) OR (e_flags v AND NOT 0x0fff))
           = Inr (be2 (int (length name) + (e_flags v - e_flags v mod 4096)))"
    unfolding fl(1) using fl(2) fl(3) by (simp add: pack_H_def)
  have 5: "utf8_encode name = Inr (map char_of name)"
    by (rule utf8_encode_ascii [OF va(3)])
  have 6: "pack_20s (e_sha v) = e_sha v" using va(12) by (simp add: pack_20s_def)
  define X where "X = time_bytes (e_ctime v) @ time_bytes (e_mtime v)
        @ be4 (e_dev v) @ be4 (e_ino v) @ be4 (e_mode v)
        @ be4 (e_uid v) @ be4 (e_gid v) @ be4 (e_size v)
        @ e_sha v
        @ be2 (int (length name) + (e_flags v - e_flags v mod 4096))
        @ map char_of name"
  have lx: "length X = 62 + length name"
    using va(12) by (simp add: X_def length_time_bytes length_be4 length_be2)
  have F4: "f_write (map char_of name)
              (f_write ((be4 (e_dev v) @ be4 (e_ino v) @ be4 (e_mode v) @ be4 (e_uid v)
                  @ be4 (e_gid v) @ be4 (e_size v)) @ e_sha v
                  @ be2 (int (length name) + (e_flags v - e_flags v mod 4096)))
                 ((f @ time_bytes (e_ctime v)) @ time_bytes (e_mtime v))) = f @ X"
    by (simp add: f_write_def X_def)
  have l: "length (f @ X) = length f + length X" by simp
  have "write_cache_entry f (name, v) =
        Inr (f_write (replicate (nat (int (length f) + ((int (length (f @ X)) - int (length f) + 8)
               AND NOT 7) - int (length (f @ X)))) NUL) (f @ X))"
    by (simp only: write_cache_entry_def Let_def prod.case 1 2 3 4 5 6 bind_err_Inr_simp F4)
  also have "\<dots> = Inr ((f @ X) @ replicate (8 - length X mod 8) NUL)"
    unfolding l pad_count by (simp only: f_write_def)
  also have "\<dots> = Inr (f @ entry_bytes (name, v))"
    by (simp add: entry_bytes_def X_def [symmetric] lx)
  finally show ?thesis unfolding e .
qed

lemma f_read_drop:
  "drop (pos f) (contents f) = a @ r \<Longrightarrow> length a = n \<Longrightarrow>
   f_read n f = (a, f\<lparr>pos := pos f + n\<rparr>)"
  by (simp add: f_read_def Let_def)

lemma drop_adv:
  "drop p c = a @ r \<Longrightarrow> length a = n \<Longrightarrow> drop (p + n) c = r"
proof -
  assume a: "drop p c = a @ r" "length a = n"
  have "drop (p + n) c = drop n (drop p c)" by (simp add: add.commute)
  then show ?thesis using a by simp
qed

lemma unpack_LL_ok: "u32 s \<Longrightarrow> u32 n \<Longrightarrow> unpack_LL (be4 s @ be4 n) = Inr (s, n)"
  by (simp add: unpack_LL_def length_be4 be_int_4 u32_def)

lemma read_cache_time_ok:
  assumes "valid_time t" "drop (pos f) (contents f) = time_bytes t @ r"
  shows "read_cache_time f = Inr (t, f\<lparr>pos := pos f + 8\<rparr>)"
proof -
  obtain s n where t: "t = TimePair s n" "u32 s" "u32 n"
    using assms(1) by (cases t) (auto simp: valid_time_def)
  have "f_read 8 f = (time_bytes t, f\<lparr>pos := pos f + 8\<rparr>)"
    by (rule f_read_drop [OF assms(2)]) (simp add: length_time_bytes)
  then show ?thesis
    using t by (simp add: read_cache_time_def time_bytes_def unpack_LL_ok bind_err_Inr_simp)
qed

lemma unpack_entry_fields_ok:
  assumes "u32 a0" "u32 a1" "u32 a2" "u32 a3" "u32 a4" "u32 a5" "length sha = 20"
    "0 \<le> fl" "fl < 2 ^ 16"
  shows "unpack_entry_fields (be4 a0 @ be4 a1 @ be4 a2 @ be4 a3 @ be4 a4 @ be4 a5 @ sha @ be2 fl)
         = Inr ([a0, a1, a2, a3, a4, a5], sha, fl)"
proof -
  let ?b = "be4 a0 @ be4 a1 @ be4 a2 @ be4 a3 @ be4 a4 @ be4 a5 @ sha @ be2 fl"
  have l: "length ?b = 46" using assms(7) by (simp add: length_be4 length_be2)
  have u: "[0..<6] = [0, 1, 2, 3, 4, 5]" by (simp add: upt_rec)
  have b: "be_int (be4 a0) = a0" "be_int (be4 a1) = a1" "be_int (be4 a2) = a2"
    "be_int (be4 a3) = a3" "be_int (be4 a4) = a4" "be_int (be4 a5) = a5" "be_int (be2 fl) = fl"
    using assms by (simp_all add: be_int_4 be_int_2 u32_def)
  show ?thesis
    unfolding unpack_entry_fields_def u
    using l assms(7) by (simp add: length_be4 length_be2 b)
qed

lemma read_cache_entry_ok:
  assumes "valid_entry e" "drop (pos f) (contents f) = entry_bytes e @ rest"
  shows "read_cache_entry f = Inr (clear_len e, f\<lparr>pos := pos f + length (entry_bytes e)\<rparr>)"
proof -
  obtain name v where e: "e = (name, v)" by (cases e)
  have va: "1 \<le> length name" "length name \<le> 4095" "list_all (\<lambda>c. c < 128) name"
    "valid_time (e_ctime v)" "valid_time (e_mtime v)"
    "u32 (e_dev v)" "u32 (e_ino v)" "u32 (e_mode v)" "u32 (e_uid v)" "u32 (e_gid v)"
    "u32 (e_size v)" "length (e_sha v) = 20" "0 \<le> e_flags v" "e_flags v < 2 ^ 16"
    using assms(1) unfolding e valid_entry_def by simp_all
  note fl = flags_field [OF va(13) va(14) va(2)]
  define fl' where "fl' = int (length name) + (e_flags v - e_flags v mod 4096)"
  define H where "H = be4 (e_dev v) @ be4 (e_ino v) @ be4 (e_mode v) @ be4 (e_uid v)
                     @ be4 (e_gid v) @ be4 (e_size v) @ e_sha v @ be2 fl'"
  define NB where "NB = map char_of name"
  define k where "k = 8 - (62 + length name) mod 8"
  define PAD where "PAD = replicate k NUL"
  define f1 where "f1 = f\<lparr>pos := pos f + 8\<rparr>"
  define f2 where "f2 = f1\<lparr>pos := pos f1 + 8\<rparr>"
  define f3 where "f3 = f2\<lparr>pos := pos f2 + 46\<rparr>"
  define f4 where "f4 = f3\<lparr>pos := pos f3 + length name\<rparr>"
  define f5 where "f5 = f4\<lparr>pos := pos f4 + k\<rparr>"
  have lH: "length H = 46" using va(12) by (simp add: H_def length_be4 length_be2)
  have lNB: "length NB = length name" by (simp add: NB_def)
  have lPAD: "length PAD = k" by (simp add: PAD_def)
  have eb: "entry_bytes e = time_bytes (e_ctime v) @ time_bytes (e_mtime v) @ H @ NB @ PAD"
    by (simp add: e entry_bytes_def H_def NB_def PAD_def k_def fl'_def)
  have c: "contents f1 = contents f" "contents f2 = contents f" "contents f3 = contents f"
    "contents f4 = contents f"
    by (simp_all add: f1_def f2_def f3_def f4_def)
  have p: "pos f1 = pos f + 8" "pos f2 = pos f + 16" "pos f3 = pos f + 62"
    "pos f4 = pos f + (62 + length name)"
    by (simp_all add: f1_def f2_def f3_def f4_def)
  have D0: "drop (pos f) (contents f)
              = time_bytes (e_ctime v) @ (time_bytes (e_mtime v) @ H @ NB @ PAD @ rest)"
    using assms(2) by (simp add: eb)
  have D1: "drop (pos f1) (contents f1) = time_bytes (e_mtime v) @ (H @ NB @ PAD @ rest)"
    unfolding c p by (rule drop_adv [OF D0]) (simp add: length_time_bytes)
  have D2: "drop (pos f2) (contents f2) = H @ (NB @ PAD @ rest)"
    using drop_adv [OF D1, of 8] by (simp add: c p length_time_bytes add.assoc)
  have D3: "drop (pos f3) (contents f3) = NB @ (PAD @ rest)"
    using drop_adv [OF D2, of 46] by (simp add: c p lH add.assoc)
  have D4: "drop (pos f4) (contents f4) = PAD @ rest"
    using drop_adv [OF D3, of "length name"] by (simp add: c p lNB add.assoc)
  have r1: "read_cache_time f = Inr (e_ctime v, f1)"
    unfolding f1_def by (rule read_cache_time_ok [OF va(4) D0])
  have r2: "read_cache_time f1 = Inr (e_mtime v, f2)"
    unfolding f2_def by (rule read_cache_time_ok [OF va(5) D1])
  have n46: "20 + 4 * 6 + 2 = (46::nat)" by simp
  have r3: "f_read 46 f2 = (H, f3)"
    unfolding f3_def by (rule f_read_drop [OF D2 lH])
  have u: "unpack_entry_fields H
           = Inr ([e_dev v, e_ino v, e_mode v, e_uid v, e_gid v, e_size v], e_sha v, fl')"
    unfolding H_def
    by (rule unpack_entry_fields_ok [OF va(6) va(7) va(8) va(9) va(10) va(11) va(12)])
       (use fl in \<open>simp_all add: fl'_def\<close>)
  have a1: "nat (fl' AND 0x0fff) = length name"
    using fl(4) by (simp add: and_4095 fl'_def)
  have r4: "f_read (length name) f3 = (NB, f4)"
    unfolding f4_def by (rule f_read_drop [OF D3 lNB])
  have dec: "utf8_decode NB = Inr name"
    unfolding NB_def by (rule utf8_decode_ascii [OF va(3)])
  have pc: "nat (int (pos f) + ((int (pos f4) - int (pos f) + 8) AND NOT 7) - int (pos f4)) = k"
    unfolding p(4) pad_count k_def ..
  have r5: "f_read k f4 = (PAD, f5)"
    unfolding f5_def by (rule f_read_drop [OF D4 lPAD])
  have a2: "fl' AND NOT 0x0fff = e_flags v AND NOT 0x0fff"
  proof -
    have "fl' AND NOT 0x0fff = fl' - fl' mod 4096" by (rule and_not_4095)
    also have "\<dots> = e_flags v - e_flags v mod 4096" using fl(4) by (simp add: fl'_def)
    also have "\<dots> = e_flags v AND NOT 0x0fff" by (rule and_not_4095 [symmetric])
    finally show ?thesis .
  qed
  have f5: "f5 = f\<lparr>pos := pos f + length (entry_bytes e)\<rparr>"
    by (simp add: f5_def f4_def f3_def f2_def f1_def eb length_time_bytes lH lNB lPAD)
  have "read_cache_entry f =
        Inr ((name,
            \<lparr>e_ctime = e_ctime v, e_mtime = e_mtime v,
             e_dev = [e_dev v, e_ino v, e_mode v, e_uid v, e_gid v, e_size v] ! 0,
             e_ino = [e_dev v, e_ino v, e_mode v, e_uid v, e_gid v, e_size v] ! 1,
             e_mode = [e_dev v, e_ino v, e_mode v, e_uid v, e_gid v, e_size v] ! 2,
             e_uid = [e_dev v, e_ino v, e_mode v, e_uid v, e_gid v, e_size v] ! 3,
             e_gid = [e_dev v, e_ino v, e_mode v, e_uid v, e_gid v, e_size v] ! 4,
             e_size = [e_dev v, e_ino v, e_mode v, e_uid v, e_gid v, e_size v] ! 5,
             e_sha = e_sha v,
             e_flags = fl' AND NOT 0x0fff\<rparr>), f5)"
    by (simp only: read_cache_entry_def Let_def r1 r2 n46 r3 u a1 r4 dec pc r5
        bind_err_Inr_simp prod.case)
  also have "\<dots> = Inr (clear_len e, f\<lparr>pos := pos f + length (entry_bytes e)\<rparr>)"
    unfolding a2 f5 by (simp add: e clear_len_def)
  finally show ?thesis .
qed

lemma write_entries_ok:
  "\<forall>e\<in>set es. valid_entry e \<Longrightarrow> write_entries f es = Inr (f @ concat (map entry_bytes es))"
proof (induction es arbitrary: f)
  case Nil
  then show ?case by simp
next
  case (Cons e es)
  then show ?case by (simp add: write_cache_entry_ok bind_err_Inr_simp)
qed

lemma read_entries_ok:
  "\<forall>e\<in>set es. valid_entry e \<Longrightarrow>
   drop (pos f) (contents f) = concat (map entry_bytes es) @ rest \<Longrightarrow>
   read_entries (length es) f
     = Inr (map clear_len es, f\<lparr>pos := pos f + length (concat (map entry_bytes es))\<rparr>)"
proof (induction es arbitrary: f)
  case Nil
  then show ?case by simp
next
  case (Cons e es)
  let ?f' = "f\<lparr>pos := pos f + length (entry_bytes e)\<rparr>"
  have v: "valid_entry e" using Cons.prems(1) by simp
  have d: "drop (pos f) (contents f) = entry_bytes e @ (concat (map entry_bytes es) @ rest)"
    using Cons.prems(2) by simp
  have r: "read_cache_entry f = Inr (clear_len e, ?f')"
    by (rule read_cache_entry_ok [OF v d])
  have d': "drop (pos ?f') (contents ?f') = concat (map entry_bytes es) @ rest"
    using drop_adv [OF d, of "length (entry_bytes e)"] by simp
  have "read_entries (length es) ?f'
     = Inr (map clear_len es, ?f'\<lparr>pos := pos ?f' + length (concat (map entry_bytes es))\<rparr>)"
    using Cons.prems(1) by (intro Cons.IH [OF _ d']) simp
  then show ?case using r by (simp add: bind_err_Inr_simp add.assoc)
qed

lemma update_fresh: "k \<notin> fst ` set al \<Longrightarrow> AList.update k v al = al @ [(k, v)]"
  by (induction al) auto

lemma foldl_update_distinct:
  "distinct (map fst (acc @ xs)) \<Longrightarrow>
   foldl (\<lambda>ret x. AList.update (fst x) (snd x) ret) acc xs = acc @ xs"
proof (induction xs arbitrary: acc)
  case Nil
  then show ?case by simp
next
  case (Cons x xs)
  have "fst x \<notin> fst ` set acc" using Cons.prems by auto
  then have u: "AList.update (fst x) (snd x) acc = acc @ [x]"
    by (simp add: update_fresh)
  have "distinct (map fst ((acc @ [x]) @ xs))" using Cons.prems by simp
  from Cons.IH [OF this] show ?case using u by simp
qed

lemma fst_clear_len: "fst (clear_len e) = fst e"
  by (cases e) (simp add: clear_len_def)

lemma write_index_ok:
  assumes "\<forall>e\<in>set es. valid_entry e" "length es < 2 ^ 32"
  shows "write_index [] es
         = Inr (''DIRC'' @ (be4 2 @ be4 (int (length es))) @ concat (map entry_bytes es))"
proof -
  have "u32 (int (length es))" using assms(2) by (simp add: u32_def)
  then have "pack_Ls [2, int (length es)] = Inr (be4 2 @ be4 (int (length es)))"
    by (simp add: pack_L_ok bind_err_Inr_simp u32_def)
  then show ?thesis
    using write_entries_ok [OF assms(1)]
    by (simp add: write_index_def f_write_def bind_err_Inr_simp)
qed

lemma read_index_ok:
  assumes "\<forall>e\<in>set es. valid_entry e" "length es < 2 ^ 32"
  shows "\<exists>f'. read_index (open_rfile (''DIRC'' @ (be4 2 @ be4 (int (length es)))
                                      @ concat (map entry_bytes es)))
              = Inr (map clear_len es, f')"
proof -
  let ?c = "''DIRC'' @ (be4 2 @ be4 (int (length es))) @ concat (map entry_bytes es)"
  let ?f = "open_rfile ?c"
  let ?f1 = "?f\<lparr>pos := pos ?f + 4\<rparr>"
  let ?f2 = "?f1\<lparr>pos := pos ?f1 + 8\<rparr>"
  have u: "u32 2" "u32 (int (length es))" using assms(2) by (simp_all add: u32_def)
  have d0: "drop (pos ?f) (contents ?f)
            = ''DIRC'' @ ((be4 2 @ be4 (int (length es))) @ concat (map entry_bytes es))"
    by (simp add: open_rfile_def)
  have r1: "f_read 4 ?f = (''DIRC'', ?f1)"
    by (rule f_read_drop [OF d0]) simp
  have d1: "drop (pos ?f1) (contents ?f1)
            = (be4 2 @ be4 (int (length es))) @ concat (map entry_bytes es)"
    by (simp add: open_rfile_def)
  have r2: "f_read (4 * 2) ?f1 = (be4 2 @ be4 (int (length es)), ?f2)"
    using f_read_drop [OF d1, of 8] by (simp add: length_be4)
  have d2: "drop (pos ?f2) (contents ?f2) = concat (map entry_bytes es) @ []"
    by (simp add: open_rfile_def length_be4)
  have r3: "read_entries (length es) ?f2
     = Inr (map clear_len es, ?f2\<lparr>pos := pos ?f2 + length (concat (map entry_bytes es))\<rparr>)"
    by (rule read_entries_ok [OF assms(1) d2])
  have "read_index ?f
        = Inr (map clear_len es, ?f2\<lparr>pos := pos ?f2 + length (concat (map entry_bytes es))\<rparr>)"
    unfolding read_index_def r1 r2 prod.case
    using r3 u by (simp add: unpack_LL_ok bind_err_Inr_simp)
  then show ?thesis by blast
qed

lemma clear_len_id: "e_flags (snd e) mod 4096 = 0 \<Longrightarrow> clear_len e = e"
proof -
  assume a: "e_flags (snd e) mod 4096 = 0"
  obtain name v where e: "e = (name, v)" by (cases e)
  have "e_flags v AND NOT 0x0fff = e_flags v"
    using a unfolding e and_not_4095 by simp
  then show ?thesis unfolding e clear_len_def prod.case by simp
qed

text \<open>
  C2 (as amended): for every list of index entries with pairwise different paths of 1 to
  4095 ASCII characters, times given as pairs of seconds and nanoseconds, every number
  within its field (32 bits, 16 for the flags) and a hash of 20 bytes, \<open>write_index\<close>
  followed by \<open>read_index_dict\<close> succeeds and gives back the entries in their order,
  each under its path with ctime, mtime, device, inode, mode, uid, gid, size and hash as
  written and with the flags as written but for their low 12 bits, which are cleared; so
  entries whose flags have these bits clear come back exactly.
\<close>

theorem index_roundtrip:
  assumes "\<forall>e\<in>set entries. valid_entry e" and "distinct (map fst entries)"
    and "length entries < 2 ^ 32"
  shows "write_then_read entries = Inr (map clear_len entries)
         \<and> ((\<forall>e\<in>set entries. e_flags (snd e) mod 4096 = 0)
              \<longrightarrow> write_then_read entries = Inr entries)"
proof -
  from read_index_ok [OF assms(1) assms(3)] obtain f' where
    r: "read_index (open_rfile (''DIRC'' @ (be4 2 @ be4 (int (length entries)))
                                  @ concat (map entry_bytes entries)))
        = Inr (map clear_len entries, f')"
    by blast
  have "fst \<circ> clear_len = fst"
    by (rule ext) (simp add: fst_clear_len)
  then have "map fst (map clear_len entries) = map fst entries"
    by simp
  then have "distinct (map fst ([] @ map clear_len entries))"
    using assms(2) by (simp only: append_Nil)
  from foldl_update_distinct [OF this]
  have "foldl (\<lambda>ret x. AList.update (fst x) (snd x) ret) [] (map clear_len entries)
        = map clear_len entries"
    by simp
  then have a: "write_then_read entries = Inr (map clear_len entries)"
    using r write_index_ok [OF assms(1) assms(3)]
    by (simp add: write_then_read_def read_index_dict_def bind_err_Inr_simp)
  have "map clear_len entries = entries" if "\<forall>e\<in>set entries. e_flags (snd e) mod 4096 = 0"
    using that by (simp add: clear_len_id map_idI)
  then show ?thesis using a by simp
qed

text \<open>
  An entry for the path \<open>a\<close> whose flags are 1 comes back with the flags 0: the low 12
  bits of the flags are not kept.
\<close>

theorem index_roundtrip_flags_counterexample:
  "write_then_read
     [([0x61], \<lparr>e_ctime = TimePair 1230680220 0, e_mtime = TimePair 1230680220 0, e_dev = 2050,
                e_ino = 3761020, e_mode = 33188, e_uid = 1000, e_gid = 1000, e_size = 0,
                e_sha = replicate 20 (CHR 0xE6), e_flags = 1\<rparr>)]
   = Inr [([0x61], \<lparr>e_ctime = TimePair 1230680220 0, e_mtime = TimePair 1230680220 0,
                     e_dev = 2050, e_ino = 3761020, e_mode = 33188, e_uid = 1000, e_gid = 1000,
                     e_size = 0, e_sha = replicate 20 (CHR 0xE6), e_flags = 0\<rparr>)]"
  by code_simp

text \<open>
  Two entries, one with a flag above the low 12 bits set and one with a field at the top
  of its range, come back as they were written.
\<close>

theorem index_roundtrip_witness:
  "valid_entry ([0x61, 0x2F, 0x62],
       \<lparr>e_ctime = TimePair 1230680220 0, e_mtime = TimePair 1230680220 7, e_dev = 2050,
        e_ino = 3761020, e_mode = 33188, e_uid = 1000, e_gid = 1000, e_size = 12,
        e_sha = replicate 20 (CHR 0xE6), e_flags = 0x1000\<rparr>)
   \<and> valid_entry ([0x63],
       \<lparr>e_ctime = TimePair 5 6, e_mtime = TimePair 7 8, e_dev = 1,
        e_ino = 2, e_mode = 33261, e_uid = 3, e_gid = 4, e_size = 4294967295,
        e_sha = replicate 20 (CHR 0x01), e_flags = 0\<rparr>)
   \<and> distinct [[0x61, 0x2F, 0x62], [0x63 :: nat]]
   \<and> write_then_read
       [([0x61, 0x2F, 0x62],
         \<lparr>e_ctime = TimePair 1230680220 0, e_mtime = TimePair 1230680220 7, e_dev = 2050,
          e_ino = 3761020, e_mode = 33188, e_uid = 1000, e_gid = 1000, e_size = 12,
          e_sha = replicate 20 (CHR 0xE6), e_flags = 0x1000\<rparr>),
        ([0x63],
         \<lparr>e_ctime = TimePair 5 6, e_mtime = TimePair 7 8, e_dev = 1,
          e_ino = 2, e_mode = 33261, e_uid = 3, e_gid = 4, e_size = 4294967295,
          e_sha = replicate 20 (CHR 0x01), e_flags = 0\<rparr>)]
     = Inr [([0x61, 0x2F, 0x62],
         \<lparr>e_ctime = TimePair 1230680220 0, e_mtime = TimePair 1230680220 7, e_dev = 2050,
          e_ino = 3761020, e_mode = 33188, e_uid = 1000, e_gid = 1000, e_size = 12,
          e_sha = replicate 20 (CHR 0xE6), e_flags = 0x1000\<rparr>),
        ([0x63],
         \<lparr>e_ctime = TimePair 5 6, e_mtime = TimePair 7 8, e_dev = 1,
          e_ino = 2, e_mode = 33261, e_uid = 3, e_gid = 4, e_size = 4294967295,
          e_sha = replicate 20 (CHR 0x01), e_flags = 0\<rparr>)]"
proof -
  let ?e1 = "([0x61, 0x2F, 0x62 :: nat],
       \<lparr>e_ctime = TimePair 1230680220 0, e_mtime = TimePair 1230680220 7, e_dev = 2050,
        e_ino = 3761020, e_mode = 33188, e_uid = 1000, e_gid = 1000, e_size = 12,
        e_sha = replicate 20 (CHR 0xE6), e_flags = 0x1000\<rparr>)"
  let ?e2 = "([0x63 :: nat],
       \<lparr>e_ctime = TimePair 5 6, e_mtime = TimePair 7 8, e_dev = 1,
        e_ino = 2, e_mode = 33261, e_uid = 3, e_gid = 4, e_size = 4294967295,
        e_sha = replicate 20 (CHR 0x01), e_flags = 0\<rparr>)"
  have v1: "valid_entry ?e1" by (simp add: valid_entry_def valid_time_def u32_def)
  have v2: "valid_entry ?e2" by (simp add: valid_entry_def valid_time_def u32_def)
  have v: "\<forall>e\<in>set [?e1, ?e2]. valid_entry e" using v1 v2 by simp
  have d: "distinct (map fst [?e1, ?e2])" by simp
  have d': "distinct [[0x61, 0x2F, 0x62], [0x63 :: nat]]" by simp
  have l: "length [?e1, ?e2] < 2 ^ 32" by simp
  have z: "\<forall>e\<in>set [?e1, ?e2]. e_flags (snd e) mod 4096 = 0" by simp
  have "write_then_read [?e1, ?e2] = Inr [?e1, ?e2]"
    using index_roundtrip [OF v d l] z by blast
  then show ?thesis using v1 v2 d' by (intro conjI)
qed

section \<open>Properties of the negotiation engine\<close>

lemma dict_eq_map_of: "dict_eq d1 d2 \<Longrightarrow> map_of d1 = map_of d2"
proof
  fix k
  assume a: "dict_eq d1 d2"
  show "map_of d1 k = map_of d2 k"
  proof (cases "k \<in> set (map fst d1 @ map fst d2)")
    case True
    then show ?thesis using a by (simp add: dict_eq_def list_all_iff)
  next
    case False
    then have "map_of d1 k = None" "map_of d2 k = None"
      by (simp_all add: map_of_eq_None_iff)
    then show ?thesis by simp
  qed
qed

lemma get_sha_have:
  "get_sha old k \<in> set (filter (\<lambda>x. \<not> x = ZERO_SHA) (map snd old)) \<or> get_sha old k = ZERO_SHA"
proof (cases "map_of old k")
  case None
  then show ?thesis by (simp add: get_sha_def)
next
  case (Some s)
  then have "(k, s) \<in> set old" by (rule map_of_SomeD)
  then have "s \<in> snd ` set old" by force
  then show ?thesis using Some by (auto simp: get_sha_def)
qed

lemma receive_pack_refs_unchanged:
  assumes "map_of old = map_of new"
  shows "receive_pack_refs caps old new names (filter (\<lambda>x. \<not> x = ZERO_SHA) (map snd old)) st = st"
proof (induction names arbitrary: st)
  case Nil
  then show ?case by simp
next
  case (Cons n names)
  obtain w want sent where st: "st = (w, want, sent)" by (cases st)
  have e: "get_sha new n = get_sha old n" using assms by (simp add: get_sha_def)
  have h: "\<not> (get_sha old n \<notin> set (filter (\<lambda>x. \<not> x = ZERO_SHA) (map snd old))
              \<and> get_sha old n \<noteq> ZERO_SHA)"
    using get_sha_have [of old n] by blast
  have "receive_pack_refs caps old new (n # names)
          (filter (\<lambda>x. \<not> x = ZERO_SHA) (map snd old)) (w, want, sent)
        = receive_pack_refs caps old new names
          (filter (\<lambda>x. \<not> x = ZERO_SHA) (map snd old)) (w, want, sent)"
  proof (cases "get_sha old n = ZERO_SHA")
    case True
    then show ?thesis by (simp add: e Let_def)
  next
    case False
    then have "get_sha old n \<in> set (filter (\<lambda>x. \<not> x = ZERO_SHA) (map snd old))"
      using get_sha_have [of old n] by blast
    then show ?thesis by (simp add: e Let_def del: set_filter filter_set)
  qed
  then show ?case unfolding st using Cons.IH [of "(w, want, sent)"] by simp
qed

lemma handle_receive_pack_head_unchanged:
  assumes "dict_eq old new"
  shows "handle_receive_pack_head set_order caps old new w
         = ((filter (\<lambda>x. \<not> x = ZERO_SHA) (map snd old), []), write_pkt_line None w)"
  unfolding handle_receive_pack_head_def Let_def
  by (simp only: receive_pack_refs_unchanged [OF dict_eq_map_of [OF assms]] prod.case)

lemma read_refs_world:
  "read_refs w = Inr (r, w1) \<Longrightarrow> \<exists>rest. w1 = w\<lparr>inp := rest\<rparr>"
  by (auto simp: read_refs_def bind_err_def split: sum.splits)

text \<open>
  C9: when the refs that \<open>determine_wants\<close> returns equal the advertised refs,
  \<open>send_pack\<close> returns them after writing the flush packet that ends the (empty) list of
  ref changes: nothing else is written, the pack-content generator is not called
  (\<open>gen_calls\<close> is as before), no pack is written, and the answer does not depend on the
  generator or on the tail.
\<close>

theorem send_pack_unchanged_refs:
  assumes "read_refs w = Inr ((old_refs, Some server_capabilities), w1)"
    and "determine_wants old_refs = Some new_refs"
    and "dict_eq old_refs new_refs"
  shows "send_pack set_order determine_wants generate_pack_contents finish w
           = Inr (new_refs, w1\<lparr>out := out w @ [None]\<rparr>)
         \<and> gen_calls (w1\<lparr>out := out w @ [None]\<rparr>) = gen_calls w
         \<and> packs (w1\<lparr>out := out w @ [None]\<rparr>) = packs w"
proof -
  from read_refs_world [OF assms(1)] obtain rest where w1: "w1 = w\<lparr>inp := rest\<rparr>" by blast
  have "send_pack set_order determine_wants generate_pack_contents finish w
        = Inr (new_refs, write_pkt_line None w1)"
    by (simp add: send_pack_def assms(1) assms(2) assms(3) bind_err_def send_pack_body_def
        handle_receive_pack_head_unchanged [OF assms(3)])
  then show ?thesis by (simp add: w1 write_pkt_line_def)
qed

theorem send_pack_unchanged_refs_witness:
  "read_refs (new_world adv_master [])
     = Inr (([(''refs/heads/master'', replicate 40 (CHR ''a''))], Some [''ofs-delta'']),
            new_world [] [])
   \<and> keep_refs [(''refs/heads/master'', replicate 40 (CHR ''a''))]
     = Some [(''refs/heads/master'', replicate 40 (CHR ''a''))]
   \<and> dict_eq [(''refs/heads/master'', replicate 40 (CHR ''a''))]
             [(''refs/heads/master'', replicate 40 (CHR ''a''))]
   \<and> send_pack remdups keep_refs no_objects no_tail (new_world adv_master [])
     = Inr ([(''refs/heads/master'', replicate 40 (CHR ''a''))],
            (new_world [] [])\<lparr>out := out (new_world adv_master []) @ [None]\<rparr>)
   \<and> gen_calls ((new_world [] [])\<lparr>out := out (new_world adv_master []) @ [None]\<rparr>)
     = gen_calls (new_world adv_master [])
   \<and> packs ((new_world [] [])\<lparr>out := out (new_world adv_master []) @ [None]\<rparr>)
     = packs (new_world adv_master [])"
proof -
  have r: "read_refs (new_world adv_master [])
     = Inr (([(''refs/heads/master'', replicate 40 (CHR ''a''))], Some [''ofs-delta'']),
            new_world [] [])"
    by code_simp
  have k: "keep_refs [(''refs/heads/master'', replicate 40 (CHR ''a''))]
     = Some [(''refs/heads/master'', replicate 40 (CHR ''a''))]"
    by (simp add: keep_refs_def)
  have d: "dict_eq [(''refs/heads/master'', replicate 40 (CHR ''a''))]
             [(''refs/heads/master'', replicate 40 (CHR ''a''))]"
    by (simp add: dict_eq_def)
  show ?thesis
    using r k d
      send_pack_unchanged_refs [where determine_wants = keep_refs and set_order = remdups
        and generate_pack_contents = no_objects and finish = no_tail, OF r k d]
    by (intro conjI) simp_all
qed

text \<open>
  The HTTP client does the same once the server is known to be smart: nothing but the
  flush packet is written to the request buffer, which is never sent.
\<close>

lemma http_send_pack_unchanged_refs:
  assumes "discover_references ''git-receive-pack'' resp = Inr ((old_refs, sc), False)"
    and "determine_wants old_refs = Some new_refs"
    and "dict_eq old_refs new_refs"
  shows "http_send_pack set_order determine_wants generate_pack_contents finish resp
           = Inr (new_refs, (new_world [] [])\<lparr>out := [None]\<rparr>)"
  by (simp add: http_send_pack_def assms(1) assms(2) assms(3) bind_err_def send_pack_body_def
      handle_receive_pack_head_unchanged [OF assms(3)] write_pkt_line_def new_world_def)

text \<open>
  A fetch over HTTP in which nothing is wanted: the advertised refs are returned and the
  request buffer stays empty, so no flush packet is sent.
\<close>

theorem http_fetch_pack_no_flush_counterexample:
  "http_fetch_pack want_nothing [] no_tail (http_adv ''git-upload-pack'')
   = Inr ([(''refs/heads/master'', replicate 40 (CHR ''a''))],
          \<lparr>inp = [], out = [], gen_calls = [], packs = [], haves = [], acks = []\<rparr>)"
  by code_simp

text \<open>
  C8 (as amended): when the want-selection function returns an empty selection (\<open>None\<close>
  or the empty list), \<open>fetch_pack\<close> returns the advertised refs unchanged and writes no
  \<open>want\<close> or \<open>have\<close> line; the graph walker is not asked and the tail (the pack
  exchange) is not run. The traditional client writes one flush packet and nothing else;
  the HTTP client writes nothing at all, its request buffer is not even created.
\<close>

theorem fetch_pack_nothing_wanted:
  "(read_refs w = Inr ((refs, server_capabilities), w')
      \<and> (determine_wants refs = None \<or> determine_wants refs = Some [])
    \<longrightarrow> fetch_pack thin_packs determine_wants can_read finish w
          = Inr (refs, w'\<lparr>out := out w @ [None]\<rparr>)
        \<and> haves (w'\<lparr>out := out w @ [None]\<rparr>) = haves w
        \<and> acks (w'\<lparr>out := out w @ [None]\<rparr>) = acks w)
   \<and> (discover_references ''git-upload-pack'' resp = Inr ((refs, Some capabilities), dumb)
      \<and> (determine_wants refs = None \<or> determine_wants refs = Some [])
    \<longrightarrow> http_fetch_pack determine_wants graph_walker finish resp
          = Inr (refs, \<lparr>inp = [], out = [], gen_calls = [], packs = [],
                        haves = graph_walker, acks = []\<rparr>))"
proof (intro conjI impI)
  assume a: "read_refs w = Inr ((refs, server_capabilities), w')
             \<and> (determine_wants refs = None \<or> determine_wants refs = Some [])"
  then obtain rest where w': "w' = w\<lparr>inp := rest\<rparr>" using read_refs_world by blast
  have f: "fetch_pack thin_packs determine_wants can_read finish w
           = Inr (refs, write_pkt_line None w')"
    using a by (auto simp: fetch_pack_def bind_err_def Let_def)
  show "fetch_pack thin_packs determine_wants can_read finish w
          = Inr (refs, w'\<lparr>out := out w @ [None]\<rparr>)"
    using f by (simp add: w' write_pkt_line_def)
  show "haves (w'\<lparr>out := out w @ [None]\<rparr>) = haves w" by (simp add: w')
  show "acks (w'\<lparr>out := out w @ [None]\<rparr>) = acks w" by (simp add: w')
next
  assume a: "discover_references ''git-upload-pack'' resp = Inr ((refs, Some capabilities), dumb)
             \<and> (determine_wants refs = None \<or> determine_wants refs = Some [])"
  then show "http_fetch_pack determine_wants graph_walker finish resp
          = Inr (refs, \<lparr>inp = [], out = [], gen_calls = [], packs = [],
                        haves = graph_walker, acks = []\<rparr>)"
    by (auto simp: http_fetch_pack_def bind_err_def new_world_def)
qed

theorem fetch_pack_nothing_wanted_witness:
  "read_refs (new_world adv_master [''h1''])
     = Inr (([(''refs/heads/master'', replicate 40 (CHR ''a''))], Some [''ofs-delta'']),
            new_world [] [''h1''])
   \<and> want_nothing [(''refs/heads/master'', replicate 40 (CHR ''a''))] = Some []
   \<and> fetch_pack True want_nothing input_pending no_tail (new_world adv_master [''h1''])
     = Inr ([(''refs/heads/master'', replicate 40 (CHR ''a''))],
            (new_world [] [''h1''])\<lparr>out := out (new_world adv_master [''h1'']) @ [None]\<rparr>)
   \<and> discover_references ''git-upload-pack'' (http_adv ''git-upload-pack'')
     = Inr (([(''refs/heads/master'', replicate 40 (CHR ''a''))], Some [''ofs-delta'']), False)
   \<and> http_fetch_pack want_nothing [''h1''] no_tail (http_adv ''git-upload-pack'')
     = Inr ([(''refs/heads/master'', replicate 40 (CHR ''a''))],
            \<lparr>inp = [], out = [], gen_calls = [], packs = [], haves = [''h1''], acks = []\<rparr>)"
proof -
  have r: "read_refs (new_world adv_master [''h1''])
     = Inr (([(''refs/heads/master'', replicate 40 (CHR ''a''))], Some [''ofs-delta'']),
            new_world [] [''h1''])"
    by code_simp
  have n: "want_nothing [(''refs/heads/master'', replicate 40 (CHR ''a''))] = Some []"
    by (simp add: want_nothing_def)
  have d: "discover_references ''git-upload-pack'' (http_adv ''git-upload-pack'')
     = Inr (([(''refs/heads/master'', replicate 40 (CHR ''a''))], Some [''ofs-delta'']), False)"
    by code_simp
  note t = fetch_pack_nothing_wanted [where determine_wants = want_nothing
      and w = "new_world adv_master [''h1'']" and w' = "new_world [] [''h1'']"
      and refs = "[(''refs/heads/master'', replicate 40 (CHR ''a''))]"
      and server_capabilities = "Some [''ofs-delta'']" and capabilities = "[''ofs-delta'']"
      and resp = "http_adv ''git-upload-pack''" and dumb = False
      and thin_packs = True and can_read = input_pending and finish = no_tail
      and graph_walker = "[''h1'']"]
  show ?thesis using r n d t by (intro conjI) simp_all
qed

text \<open>
  C3: the server advertises \<open>ofs-delta\<close> only and one ref is moved. The traditional
  client leaves \<open>report-status\<close> out of the capabilities that it sends with the first
  ref change; the HTTP client sends its whole default list, \<open>report-status\<close> included.
\<close>

theorem http_send_pack_keeps_report_status:
  "send_pack remdups move_master no_objects no_tail (new_world adv_master [])
   = Inr ([(''refs/heads/master'', replicate 40 (CHR ''c''))],
          \<lparr>inp = [],
           out = [Some (replicate 40 (CHR ''a'') @ '' '' @ replicate 40 (CHR ''c'')
                        @ '' refs/heads/master'' @ [NUL] @ ''ofs-delta side-band-64k''),
                  None],
           gen_calls = [([replicate 40 (CHR ''a'')], [replicate 40 (CHR ''c'')])],
           packs = [], haves = [], acks = []\<rparr>)
   \<and> http_send_pack remdups move_master no_objects no_tail (http_adv ''git-receive-pack'')
   = Inr ([(''refs/heads/master'', replicate 40 (CHR ''c''))],
          \<lparr>inp = [],
           out = [Some (replicate 40 (CHR ''a'') @ '' '' @ replicate 40 (CHR ''c'')
                        @ '' refs/heads/master'' @ [NUL]
                        @ ''report-status ofs-delta side-band-64k''),
                  None],
           gen_calls = [([replicate 40 (CHR ''a'')], [replicate 40 (CHR ''c'')])],
           packs = [], haves = [], acks = []\<rparr>)"
  by code_simp

lemma split_all_nosep: "sep \<notin> set a \<Longrightarrow> split_all sep a = [a]"
  by (induction a) auto

lemma split_all_sep: "sep \<notin> set a \<Longrightarrow> split_all sep (a @ sep # b) = a # split_all sep b"
  by (induction a) auto

lemma rstrip_nl_line:
  "st = [] \<or> last st \<noteq> LF \<Longrightarrow> rstrip_nl (x @ SP # st @ [LF]) = x @ SP # st"
proof -
  assume a: "st = [] \<or> last st \<noteq> LF"
  have "dropWhile (\<lambda>c. c = LF) (rev st @ SP # rev x) = rev st @ SP # rev x"
  proof (cases st rule: rev_cases)
    case Nil
    then show ?thesis by (simp add: SP_def LF_def)
  next
    case (snoc ys y)
    then show ?thesis using a by simp
  qed
  then show ?thesis by (simp add: rstrip_nl_def rstrip_by_def)
qed

lemma ack_line_parts:
  assumes "SP \<notin> set i" "SP \<notin> set st" "st = [] \<or> last st \<noteq> LF"
  shows "split_all SP (rstrip_nl (''ACK '' @ i @ '' '' @ st @ [LF])) = [''ACK'', i, st]"
proof -
  have "rstrip_nl ((''ACK '' @ i) @ SP # st @ [LF]) = (''ACK '' @ i) @ SP # st"
    by (rule rstrip_nl_line [OF assms(3)])
  then have "rstrip_nl (''ACK '' @ i @ '' '' @ st @ [LF]) = ''ACK'' @ SP # (i @ SP # st)"
    by (simp add: SP_def)
  moreover have "split_all SP (''ACK'' @ SP # (i @ SP # st)) = ''ACK'' # split_all SP (i @ SP # st)"
    by (rule split_all_sep) (simp add: SP_def)
  moreover have "split_all SP (i @ SP # st) = i # split_all SP st"
    by (rule split_all_sep [OF assms(1)])
  moreover have "split_all SP st = [st]"
    by (rule split_all_nosep [OF assms(2)])
  ultimately show ?thesis by simp
qed

text \<open>
  One turn of the \<open>have\<close> loop. If \<open>can_read\<close> reports nothing pending after the
  \<open>have\<close> line is written, nothing is read and the loop goes on. If it reports pending
  data and the next line is \<open>ACK <id> <status>\<close>, that one line is read and the id is
  acknowledged; then \<open>continue\<close> and \<open>common\<close> go on with the next \<open>have\<close>,
  \<open>ready\<close> ends the loop, and any other status that is valid UTF-8 raises the
  assertion error with the decoded status in its message.
\<close>

lemma have_loop_turn:
  assumes "SP \<notin> set i" "SP \<notin> set st" "st = [] \<or> last st \<noteq> LF"
  shows "\<not> can_read (write_pkt_line (Some (''have '' @ h @ [LF])) (w\<lparr>haves := hs\<rparr>)) \<Longrightarrow>
         have_loop can_read (h # hs) w
           = have_loop can_read hs (write_pkt_line (Some (''have '' @ h @ [LF])) (w\<lparr>haves := hs\<rparr>))"
    and "can_read (write_pkt_line (Some (''have '' @ h @ [LF])) (w\<lparr>haves := hs\<rparr>)) \<Longrightarrow>
         inp w = Some (''ACK '' @ i @ '' '' @ st @ [LF]) # rest \<Longrightarrow>
         st = ''continue'' \<or> st = ''common'' \<Longrightarrow>
         have_loop can_read (h # hs) w
           = have_loop can_read hs
               (ack i ((write_pkt_line (Some (''have '' @ h @ [LF])) (w\<lparr>haves := hs\<rparr>))\<lparr>inp := rest\<rparr>))"
    and "can_read (write_pkt_line (Some (''have '' @ h @ [LF])) (w\<lparr>haves := hs\<rparr>)) \<Longrightarrow>
         inp w = Some (''ACK '' @ i @ '' '' @ st @ [LF]) # rest \<Longrightarrow>
         st = ''ready'' \<Longrightarrow>
         have_loop can_read (h # hs) w
           = Inr (ack i ((write_pkt_line (Some (''have '' @ h @ [LF])) (w\<lparr>haves := hs\<rparr>))\<lparr>inp := rest\<rparr>))"
    and "can_read (write_pkt_line (Some (''have '' @ h @ [LF])) (w\<lparr>haves := hs\<rparr>)) \<Longrightarrow>
         inp w = Some (''ACK '' @ i @ '' '' @ st @ [LF]) # rest \<Longrightarrow>
         st \<noteq> ''continue'' \<Longrightarrow> st \<noteq> ''common'' \<Longrightarrow> st \<noteq> ''ready'' \<Longrightarrow>
         utf8_decode st = Inr s \<Longrightarrow>
         have_loop can_read (h # hs) w = Inl (AssertionError (s @ str_of not_in_message))"
proof -
  note p = ack_line_parts [OF assms]
  show "\<not> can_read (write_pkt_line (Some (''have '' @ h @ [LF])) (w\<lparr>haves := hs\<rparr>)) \<Longrightarrow>
         have_loop can_read (h # hs) w
           = have_loop can_read hs (write_pkt_line (Some (''have '' @ h @ [LF])) (w\<lparr>haves := hs\<rparr>))"
    by (simp add: Let_def)
  show "can_read (write_pkt_line (Some (''have '' @ h @ [LF])) (w\<lparr>haves := hs\<rparr>)) \<Longrightarrow>
         inp w = Some (''ACK '' @ i @ '' '' @ st @ [LF]) # rest \<Longrightarrow>
         st = ''continue'' \<or> st = ''common'' \<Longrightarrow>
         have_loop can_read (h # hs) w
           = have_loop can_read hs
               (ack i ((write_pkt_line (Some (''have '' @ h @ [LF])) (w\<lparr>haves := hs\<rparr>))\<lparr>inp := rest\<rparr>))"
    using p by (auto simp: Let_def read_pkt_line_def write_pkt_line_def bind_err_def)
  show "can_read (write_pkt_line (Some (''have '' @ h @ [LF])) (w\<lparr>haves := hs\<rparr>)) \<Longrightarrow>
         inp w = Some (''ACK '' @ i @ '' '' @ st @ [LF]) # rest \<Longrightarrow>
         st = ''ready'' \<Longrightarrow>
         have_loop can_read (h # hs) w
           = Inr (ack i ((write_pkt_line (Some (''have '' @ h @ [LF])) (w\<lparr>haves := hs\<rparr>))\<lparr>inp := rest\<rparr>))"
    using p by (auto simp: Let_def read_pkt_line_def write_pkt_line_def bind_err_def)
  show "can_read (write_pkt_line (Some (''have '' @ h @ [LF])) (w\<lparr>haves := hs\<rparr>)) \<Longrightarrow>
         inp w = Some (''ACK '' @ i @ '' '' @ st @ [LF]) # rest \<Longrightarrow>
         st \<noteq> ''continue'' \<Longrightarrow> st \<noteq> ''common'' \<Longrightarrow> st \<noteq> ''ready'' \<Longrightarrow>
         utf8_decode st = Inr s \<Longrightarrow>
         have_loop can_read (h # hs) w = Inl (AssertionError (s @ str_of not_in_message))"
    using p by (auto simp: Let_def read_pkt_line_def write_pkt_line_def bind_err_def)
qed

text \<open>
  C6: pending data after the first \<open>have\<close>, and the line \<open>ACK h1 <status>\<close> with a
  status that is none of the three and is not valid UTF-8 (the single byte \<open>0xFF\<close>): the
  head phase ends with \<open>UnicodeDecodeError\<close>, raised while the message of the assertion
  is built, and not with the assertion error.
\<close>

theorem upload_pack_head_undecodable_status:
  "handle_upload_pack_head (fetch_capabilities True) [replicate 40 (CHR ''a'')] input_pending
     (new_world [Some (''ACK h1 '' @ [CHR 0xFF] @ [LF])] [''h1'', ''h2''])
   = Inl UnicodeDecodeError"
  by code_simp

end
